theory Spec2Isabelle
  imports Complex_Main "HOL-Library.Log_Nat"
begin

section \<open>The circuit editor of \<open>src/main.py\<close>\<close>

text \<open>
  The editor keeps circuit components (qubits and gates) and connection lines in a
  graphics scene. The logic verified here is the grid snapping of
  \<open>SimulationWindow.dropEvent\<close> and \<open>CircuitComponent.mouseReleaseEvent\<close>, and the
  connection resolution of \<open>SimulationScene.check_connections\<close> and
  \<open>SimulationScene.add_connection_line\<close>.

  Conventions of the model:
  \<^item> Python objects are references (\<open>ref\<close>) into an explicit heap; \<open>==\<close> on scene items
    is object identity, so it is equality of references.
  \<^item> Coordinates are the toolkit's doubles; a double is the rational number it stands
    for. Sums, differences and remainders of coordinates are taken exactly. The snap of
    \<open>mouseReleaseEvent\<close> divides and converts, and there the rounding to a double is
    part of the model (\<open>to_double\<close>).
  \<^item> Text is a list of 8-bit characters, read as the code points below 256.
  \<^item> Exceptions are values of \<open>py_error\<close>, returned as \<open>Inl\<close>.
\<close>

subsection \<open>Constants and data\<close>

type_synonym ref = nat

definition TYPE_QUBIT :: int where
  "TYPE_QUBIT = 0"

definition TYPE_GATE :: int where
  "TYPE_GATE = 1"

datatype py_error = IndexError | ValueError | ZeroDivisionError

text \<open>
  \<open>CircuitComponent\<close>: the fields set by \<open>__init__\<close>, together with the position and the
  pixmap size that the toolkit's base class holds (\<open>pos()\<close>, \<open>pixmap().width()\<close>,
  \<open>pixmap().height()\<close>).
\<close>

record component =
  component_name :: string
  component_type :: int
  grid_size :: int
  connected_prev :: "ref option"
  connected_next :: "ref option"
  pos_x :: rat
  pos_y :: rat
  pixmap_width :: int
  pixmap_height :: int

text \<open>
  A \<open>QGraphicsLineItem\<close> with its end points and the two attributes \<open>qubit\<close> and \<open>gate\<close>
  that \<open>add_connection_line\<close> attaches to it. The attributes are read with
  \<open>getattr(item, "qubit", None)\<close>, hence the options.
\<close>

record line_item =
  line_x1 :: rat
  line_y1 :: rat
  line_x2 :: rat
  line_y2 :: rat
  line_qubit :: "ref option"
  line_gate :: "ref option"

datatype obj = Component component | Line line_item

text \<open>The calls made on the scene's item collection, in the order they are made.\<close>

datatype scene_call = RemoveItem "ref option" | AddItem ref

text \<open>
  The program state: the heap of objects, the scene's items in the order \<open>self.items()\<close>
  returns them (the toolkit's default is descending stacking order, newest item first),
  the next unused reference, and the log of scene calls.
\<close>

record state =
  heap :: "ref \<Rightarrow> obj option"
  scene_items :: "ref list"
  next_ref :: ref
  calls :: "scene_call list"

definition initial_state :: state where
  "initial_state = \<lparr>heap = (\<lambda>_. None), scene_items = [], next_ref = 0, calls = []\<rparr>"

subsection \<open>Python arithmetic\<close>

text \<open>
  \<open>round(x)\<close> of Python 3 with one argument: the nearest integer, a tie going to the even
  neighbour.
\<close>

definition py_round :: "rat \<Rightarrow> int" where
  "py_round x =
     (let f = \<lfloor>x\<rfloor>; d = x - of_int f
      in if d < 1 / 2 then f
         else if 1 / 2 < d then f + 1
         else if even f then f else f + 1)"

text \<open>
  A double has 53 significant bits. \<open>binary_exponent x\<close> is the \<open>e\<close> with
  \<open>2 ^ e \<le> |x| < 2 ^ (e + 1)\<close>, and \<open>to_double x\<close> is the double nearest to \<open>x\<close>, a tie
  going to the even significand. This is the rounding of a division of doubles and of
  the conversion of a Python int to a double. The exponent is not bounded: overflow and
  underflow are not modelled.
\<close>

definition binary_exponent :: "rat \<Rightarrow> int" where
  "binary_exponent x =
     (if 1 \<le> \<bar>x\<bar> then bitlen \<lfloor>\<bar>x\<bar>\<rfloor> - 1 else - bitlen (\<lceil>1 / \<bar>x\<bar>\<rceil> - 1))"

definition to_double :: "rat \<Rightarrow> rat" where
  "to_double x =
     (if x = 0 then 0
      else (let u = power_int 2 (binary_exponent x - 52)
            in of_int (py_round (x / u)) * u))"

text \<open>\<open>x % g\<close> for a float \<open>x\<close> and an int \<open>g\<close>: the remainder has the sign of \<open>g\<close>.\<close>

definition py_mod :: "rat \<Rightarrow> int \<Rightarrow> py_error + rat" where
  "py_mod x g =
     (if g = 0 then Inl ZeroDivisionError
      else Inr (x - of_int \<lfloor>x / of_int g\<rfloor> * of_int g))"

subsection \<open>Grid snapping\<close>

text \<open>
  The drop-time snap, line 240 of \<open>dropEvent\<close>:
  \<open>itemPosition - QPointF(itemPosition.x() % self.scale, itemPosition.y() % self.scale)\<close>.
\<close>

definition snap_floor :: "int \<Rightarrow> rat \<times> rat \<Rightarrow> py_error + rat \<times> rat" where
  "snap_floor g p =
     (case py_mod (fst p) g of
        Inl e \<Rightarrow> Inl e
      | Inr mx \<Rightarrow>
          (case py_mod (snd p) g of
             Inl e \<Rightarrow> Inl e
           | Inr my \<Rightarrow> Inr (fst p - mx, snd p - my)))"

text \<open>
  The drag-release snap of one axis, lines 48, 49 and 52 of \<open>mouseReleaseEvent\<close>:
  \<open>round(curr_pos.x() / self.grid_size) * self.grid_size\<close>, passed to \<open>QPointF\<close>. The int
  \<open>grid_size\<close> is converted to a double, the quotient is a double, \<open>round\<close> gives a
  Python int, the product is an exact int, and \<open>QPointF\<close> converts it to a double.
\<close>

definition snap_axis :: "int \<Rightarrow> rat \<Rightarrow> rat" where
  "snap_axis g x = to_double (of_int (py_round (to_double (x / to_double (of_int g))) * g))"

definition snap_nearest :: "int \<Rightarrow> rat \<times> rat \<Rightarrow> py_error + rat \<times> rat" where
  "snap_nearest g p =
     (if g = 0 then Inl ZeroDivisionError
      else Inr (snap_axis g (fst p), snap_axis g (snd p)))"

subsection \<open>Text of a drop payload\<close>

text \<open>\<open>s.split(",")\<close>: the fields between the separators; never the empty list.\<close>

fun split_on :: "char \<Rightarrow> string \<Rightarrow> string list" where
  "split_on c [] = [[]]"
| "split_on c (x # xs) =
     (if x = c then [] # split_on c xs
      else (case split_on c xs of
              [] \<Rightarrow> [[x]]
            | f # fs \<Rightarrow> (x # f) # fs))"

definition is_decimal_char :: "char \<Rightarrow> bool" where
  "is_decimal_char c = (48 \<le> (of_char c :: nat) \<and> (of_char c :: nat) \<le> 57)"

text \<open>
  The characters below code point 256 that \<open>str.isnumeric\<close> accepts: the decimal digits,
  the superscripts one, two and three, and the fractions one quarter, one half and three
  quarters.
\<close>

definition is_numeric_char :: "char \<Rightarrow> bool" where
  "is_numeric_char c =
     (is_decimal_char c \<or> (of_char c :: nat) \<in> {178, 179, 185, 188, 189, 190})"

text \<open>\<open>s.isnumeric()\<close>: at least one character, and all characters numeric.\<close>

definition isnumeric :: "string \<Rightarrow> bool" where
  "isnumeric s = (s \<noteq> [] \<and> list_all is_numeric_char s)"

text \<open>
  \<open>int(s)\<close> on a string of numeric characters: the decimal value, or \<open>ValueError\<close> when a
  character is numeric without being a decimal digit. (The interpreter's limit on the
  number of digits is not modelled.)
\<close>

definition py_int :: "string \<Rightarrow> py_error + int" where
  "py_int s =
     (if s \<noteq> [] \<and> list_all is_decimal_char s
      then Inr (foldl (\<lambda>n c. 10 * n + (int (of_char c) - 48)) 0 s)
      else Inl ValueError)"

subsection \<open>Scene operations\<close>

text \<open>
  \<open>QGraphicsScene.removeItem\<close>: takes the item out of the scene. Called with \<open>None\<close> or
  with an item that is not in the scene, the toolkit prints a warning and changes nothing.
\<close>

definition removeItem :: "ref option \<Rightarrow> state \<Rightarrow> state" where
  "removeItem r s =
     s\<lparr>scene_items := (case r of None \<Rightarrow> scene_items s
                                | Some i \<Rightarrow> removeAll i (scene_items s)),
       calls := calls s @ [RemoveItem r]\<rparr>"

text \<open>
  \<open>QGraphicsScene.addItem\<close>: the new item is on top of the stacking order, so it is the
  first of \<open>items()\<close>. An item already in the scene is not added again.
\<close>

definition addItem :: "ref \<Rightarrow> state \<Rightarrow> state" where
  "addItem r s =
     s\<lparr>scene_items := (if r \<in> set (scene_items s) then scene_items s
                       else r # scene_items s),
       calls := calls s @ [AddItem r]\<rparr>"

text \<open>An update of the fields of a component object; other objects are left alone.\<close>

definition upd_component :: "ref \<Rightarrow> (component \<Rightarrow> component) \<Rightarrow> state \<Rightarrow> state" where
  "upd_component r f s =
     (case heap s r of
        Some (Component c) \<Rightarrow> s\<lparr>heap := (heap s)(r \<mapsto> Component (f c))\<rparr>
      | _ \<Rightarrow> s)"

definition setPos :: "ref \<Rightarrow> rat \<times> rat \<Rightarrow> state \<Rightarrow> state" where
  "setPos r p = upd_component r (\<lambda>c. c\<lparr>pos_x := fst p, pos_y := snd p\<rparr>)"

text \<open>\<open>(a.pos() - b.pos()).manhattanLength()\<close>\<close>

definition manhattan :: "component \<Rightarrow> component \<Rightarrow> rat" where
  "manhattan a b = \<bar>pos_x a - pos_x b\<bar> + \<bar>pos_y a - pos_y b\<bar>"

subsection \<open>Connection lines\<close>

text \<open>
  The loop of \<open>add_connection_line\<close>, lines 169 to 172: it runs over the list that
  \<open>self.items()\<close> returned before the loop, and removes every line item whose \<open>qubit\<close> and
  \<open>gate\<close> attributes are the given pair.
\<close>

definition is_line_of :: "state \<Rightarrow> ref \<Rightarrow> ref \<Rightarrow> ref \<Rightarrow> bool" where
  "is_line_of s qubit gate i =
     (case heap s i of
        Some (Line l) \<Rightarrow> line_qubit l = Some qubit \<and> line_gate l = Some gate
      | _ \<Rightarrow> False)"

fun remove_lines :: "ref \<Rightarrow> ref \<Rightarrow> ref list \<Rightarrow> state \<Rightarrow> state" where
  "remove_lines qubit gate [] s = s"
| "remove_lines qubit gate (i # rest) s =
     (if is_line_of s qubit gate i
      then remove_lines qubit gate rest (removeItem (Some i) s)
      else remove_lines qubit gate rest s)"

text \<open>
  The line of lines 175 to 183: from the right edge of the qubit to the left edge of
  the gate, both at half height, with the attributes \<open>qubit\<close> and \<open>gate\<close> set.
\<close>

definition connection_line :: "ref \<Rightarrow> component \<Rightarrow> ref \<Rightarrow> component \<Rightarrow> line_item" where
  "connection_line qubit qc gate gc =
     \<lparr>line_x1 = pos_x qc + of_int (pixmap_width qc),
      line_y1 = pos_y qc + of_int (pixmap_height qc) / 2,
      line_x2 = pos_x gc,
      line_y2 = pos_y gc + of_int (pixmap_height gc) / 2,
      line_qubit = Some qubit,
      line_gate = Some gate\<rparr>"

text \<open>
  \<open>add_connection_line\<close>: after the loop, the new line is created and added to the
  scene. Its callers pass component objects; for any other reference the model stops
  after the loop.
\<close>

definition add_connection_line :: "ref \<Rightarrow> ref \<Rightarrow> state \<Rightarrow> state" where
  "add_connection_line qubit gate s =
     (let s1 = remove_lines qubit gate (scene_items s) s
      in case heap s1 qubit of
           Some (Component qc) \<Rightarrow>
             (case heap s1 gate of
                Some (Component gc) \<Rightarrow>
                  (let r = next_ref s1
                   in addItem r
                        (s1\<lparr>heap := (heap s1)(r \<mapsto> Line (connection_line qubit qc gate gc)),
                            next_ref := Suc r\<rparr>))
              | _ \<Rightarrow> s1)
         | _ \<Rightarrow> s1)"

subsection \<open>Connection resolution\<close>

text \<open>
  The body of the distance test of \<open>check_connections\<close>, lines 149 to 159, for the moved
  component \<open>c\<close> and the scene item \<open>i\<close>; \<open>cc\<close> and \<open>ic\<close> are their fields as the scan
  read them. The removal of line 151 does not touch the heap, and \<open>i\<close> is not \<open>c\<close>, so
  \<open>item.x()\<close> and \<open>item.y()\<close> of line 154 are still those of \<open>ic\<close>.
\<close>

definition connect :: "ref \<Rightarrow> component \<Rightarrow> ref \<Rightarrow> component \<Rightarrow> state \<Rightarrow> state" where
  "connect c cc i ic s =
     (let s1 = (if connected_next ic \<noteq> Some c then removeItem (connected_next ic) s else s);
          s2 = setPos c (pos_x ic + of_int (grid_size cc * 6), pos_y ic) s1;
          s3 = upd_component c (\<lambda>x. x\<lparr>connected_prev := Some i\<rparr>) s2;
          s4 = upd_component i (\<lambda>x. x\<lparr>connected_next := Some c\<rparr>) s3
      in add_connection_line i c s4)"

text \<open>
  The loop of \<open>check_connections\<close>, lines 139 to 162, over the list that \<open>self.items()\<close>
  returned. The scene is not changed before the loop returns, so the fields \<open>cc\<close> of the
  moved component are those read at the start.
\<close>

fun scan :: "ref \<Rightarrow> component \<Rightarrow> ref list \<Rightarrow> state \<Rightarrow> state" where
  "scan c cc [] s = s"
| "scan c cc (i # rest) s =
     (if i = c then scan c cc rest s
      else (case heap s i of
              Some (Component ic) \<Rightarrow>
                (if component_type cc = TYPE_GATE \<and> component_type ic = TYPE_QUBIT
                 then (if manhattan cc ic \<le> of_int (grid_size cc * 8)
                       then connect c cc i ic s
                       else scan c cc rest s)
                 else scan c cc rest s)
            | _ \<Rightarrow> scan c cc rest s))"

text \<open>
  \<open>check_connections\<close>. The argument is a component object (the caller passes \<open>self\<close>);
  for any other reference the model changes nothing. The message that line 133 prints
  is not part of the state.
\<close>

definition check_connections :: "ref \<Rightarrow> state \<Rightarrow> state" where
  "check_connections c s =
     (case heap s c of
        Some (Component cc) \<Rightarrow>
          (if component_type cc = TYPE_QUBIT then s
           else scan c cc (scene_items s) s)
      | _ \<Rightarrow> s)"

subsection \<open>Event handlers\<close>

text \<open>
  \<open>CircuitComponent.mouseReleaseEvent\<close>: snap to the nearest grid point, then resolve
  connections when the component is in a scene.
\<close>

definition mouseReleaseEvent :: "ref \<Rightarrow> state \<Rightarrow> py_error + state" where
  "mouseReleaseEvent c s =
     (case heap s c of
        Some (Component cc) \<Rightarrow>
          (case snap_nearest (grid_size cc) (pos_x cc, pos_y cc) of
             Inl e \<Rightarrow> Inl e
           | Inr p \<Rightarrow>
               (let s1 = setPos c p s
                in Inr (if c \<in> set (scene_items s1) then check_connections c s1 else s1)))
      | _ \<Rightarrow> Inr s)"

text \<open>
  \<open>SimulationWindow.dropEvent\<close>. The text of the payload is \<open>None\<close> when the payload has
  no text; \<open>p\<close> is the drop point in scene coordinates (\<open>itemPosition\<close>); \<open>scale\<close> is
  \<open>self.scale\<close>; \<open>assets\<close> gives the width and height of the pixmap loaded for a name.
  The component is created as \<open>__init__\<close> leaves it, at the origin and without links.
\<close>

definition new_component ::
  "(string \<Rightarrow> int \<times> int) \<Rightarrow> int \<Rightarrow> string \<Rightarrow> int \<Rightarrow> component" where
  "new_component assets scale cname ctype =
     \<lparr>component_name = cname,
      component_type = ctype,
      grid_size = scale,
      connected_prev = None,
      connected_next = None,
      pos_x = 0,
      pos_y = 0,
      pixmap_width = fst (assets cname),
      pixmap_height = snd (assets cname)\<rparr>"

definition dropEvent ::
  "(string \<Rightarrow> int \<times> int) \<Rightarrow> int \<Rightarrow> string option \<Rightarrow> rat \<times> rat \<Rightarrow> state \<Rightarrow> py_error + state" where
  "dropEvent assets scale text p s =
     (case text of
        None \<Rightarrow> Inr s
      | Some t \<Rightarrow>
          (case split_on (CHR '','') t of
             [] \<Rightarrow> Inl IndexError
           | d0 # rest \<Rightarrow>
               (case (if isnumeric d0 then py_int d0 else Inr TYPE_QUBIT) of
                  Inl e \<Rightarrow> Inl e
                | Inr ctype \<Rightarrow>
                    (case rest of
                       [] \<Rightarrow> Inl IndexError
                     | cname # _ \<Rightarrow>
                         (case snap_floor scale p of
                            Inl e \<Rightarrow> Inl e
                          | Inr q \<Rightarrow>
                              (let item = next_ref s;
                                   s1 = s\<lparr>heap := (heap s)(item \<mapsto>
                                            Component (new_component assets scale cname ctype)),
                                          next_ref := Suc item\<rparr>
                               in Inr (addItem item (setPos item q s1))))))))"

subsection \<open>Runs of the editor\<close>

text \<open>\<open>SimulationWindow.__init__\<close> sets \<open>self.scale = 24\<close>.\<close>

definition window_scale :: int where
  "window_scale = 24"

text \<open>
  The user's actions on the canvas: a drop from the palette, a drag of a placed
  component (the toolkit moves a movable item with the pointer), and the release of the
  mouse button over a placed component. Only components that are in the scene receive
  mouse events.
\<close>

datatype event = Drop "string option" "rat \<times> rat" | Move ref "rat \<times> rat" | Release ref

definition placed_component :: "state \<Rightarrow> ref \<Rightarrow> bool" where
  "placed_component s c =
     (c \<in> set (scene_items s) \<and>
      (case heap s c of Some (Component _) \<Rightarrow> True | _ \<Rightarrow> False))"

definition step :: "(string \<Rightarrow> int \<times> int) \<Rightarrow> event \<Rightarrow> state \<Rightarrow> py_error + state" where
  "step assets ev s =
     (case ev of
        Drop text p \<Rightarrow> dropEvent assets window_scale text p s
      | Move c p \<Rightarrow> Inr (if placed_component s c then setPos c p s else s)
      | Release c \<Rightarrow> (if placed_component s c then mouseReleaseEvent c s else Inr s))"

text \<open>A run stops at the first exception.\<close>

fun run :: "(string \<Rightarrow> int \<times> int) \<Rightarrow> event list \<Rightarrow> state \<Rightarrow> py_error + state" where
  "run assets [] s = Inr s"
| "run assets (ev # evs) s =
     (case step assets ev s of
        Inl e \<Rightarrow> Inl e
      | Inr s' \<Rightarrow> run assets evs s')"

section \<open>Notions used in the statements and proofs\<close>

subsection \<open>Candidates of the connection scan\<close>

text \<open>
  A scene item is a connection candidate for the moved gate when it is another object,
  a qubit component, and the Manhattan distance between the two positions, the sum of
  the horizontal and the vertical distance, is at most eight grid cells of the gate.
  The definition follows the specification; it does not use the distance of the model
  of \<open>check_connections\<close>.
\<close>

definition is_candidate :: "ref \<Rightarrow> component \<Rightarrow> state \<Rightarrow> ref \<Rightarrow> bool" where
  "is_candidate c cc s i =
     (i \<noteq> c \<and>
      (case heap s i of
         Some (Component ic) \<Rightarrow>
           component_type ic = TYPE_QUBIT \<and>
           \<bar>pos_x cc - pos_x ic\<bar> + \<bar>pos_y cc - pos_y ic\<bar> \<le> 8 * of_int (grid_size cc)
       | _ \<Rightarrow> False))"

text \<open>
  Connection resolution as the specification words it: the gate binds to the first
  candidate in iteration order, and to nothing when there is none.
\<close>

definition bind_first_candidate :: "ref \<Rightarrow> component \<Rightarrow> state \<Rightarrow> state" where
  "bind_first_candidate c cc s =
     (case find (is_candidate c cc s) (scene_items s) of
        None \<Rightarrow> s
      | Some q \<Rightarrow>
          (case heap s q of
             Some (Component qc) \<Rightarrow> connect c cc q qc s
           | _ \<Rightarrow> s))"

subsection \<open>The steps of a binding\<close>

text \<open>The fields of the gate after lines 154 and 157.\<close>

definition moved_gate :: "component \<Rightarrow> ref \<Rightarrow> component \<Rightarrow> component" where
  "moved_gate cc i ic =
     cc\<lparr>pos_x := pos_x ic + of_int (grid_size cc * 6), pos_y := pos_y ic,
        connected_prev := Some i\<rparr>"

text \<open>The scene's items after the eviction of lines 150 and 151.\<close>

definition items_after_eviction :: "ref \<Rightarrow> component \<Rightarrow> state \<Rightarrow> ref list" where
  "items_after_eviction c ic s =
     (case connected_next ic of
        None \<Rightarrow> scene_items s
      | Some old \<Rightarrow> if old = c then scene_items s else removeAll old (scene_items s))"

text \<open>The state when \<open>add_connection_line\<close> is called on line 159.\<close>

definition pre_line_state :: "ref \<Rightarrow> component \<Rightarrow> ref \<Rightarrow> component \<Rightarrow> state \<Rightarrow> state" where
  "pre_line_state c cc i ic s =
     upd_component i (\<lambda>x. x\<lparr>connected_next := Some c\<rparr>)
       (upd_component c (\<lambda>x. x\<lparr>connected_prev := Some i\<rparr>)
         (setPos c (pos_x ic + of_int (grid_size cc * 6), pos_y ic)
           (if connected_next ic \<noteq> Some c then removeItem (connected_next ic) s else s)))"

text \<open>The state after a drop that raised no exception.\<close>

definition dropped :: "(string \<Rightarrow> int \<times> int) \<Rightarrow> int \<Rightarrow> string \<Rightarrow> int \<Rightarrow> rat \<times> rat \<Rightarrow> state \<Rightarrow> state" where
  "dropped assets scale cname ctype q s =
     addItem (next_ref s)
       (setPos (next_ref s) q
          (s\<lparr>heap := (heap s)(next_ref s \<mapsto> Component (new_component assets scale cname ctype)),
             next_ref := Suc (next_ref s)\<rparr>))"

subsection \<open>Kinds, links and lines\<close>

text \<open>The object at a reference is a component of the given kind.\<close>

definition is_kind :: "state \<Rightarrow> int \<Rightarrow> ref \<Rightarrow> bool" where
  "is_kind s k r =
     (case heap s r of Some (Component x) \<Rightarrow> component_type x = k | _ \<Rightarrow> False)"

text \<open>The links of the object at a reference; \<open>None\<close> when it is not a component.\<close>

definition prev_of :: "state \<Rightarrow> ref \<Rightarrow> ref option" where
  "prev_of s r = (case heap s r of Some (Component x) \<Rightarrow> connected_prev x | _ \<Rightarrow> None)"

definition next_of :: "state \<Rightarrow> ref \<Rightarrow> ref option" where
  "next_of s r = (case heap s r of Some (Component x) \<Rightarrow> connected_next x | _ \<Rightarrow> None)"

text \<open>The position of the component at a reference.\<close>

definition position_of :: "state \<Rightarrow> ref \<Rightarrow> (rat \<times> rat) option" where
  "position_of s r =
     (case heap s r of Some (Component x) \<Rightarrow> Some (pos_x x, pos_y x) | _ \<Rightarrow> None)"


text \<open>The number of lines in the scene that are tagged with a pair.\<close>

definition lines_for :: "state \<Rightarrow> ref \<Rightarrow> ref \<Rightarrow> nat" where
  "lines_for s qubit gate = length (filter (is_line_of s qubit gate) (scene_items s))"

subsection \<open>Link symmetry\<close>

text \<open>
  The symmetry of the specification, for an item of the scene: a link that is set leads
  to a component of the other kind whose opposite link leads back.
\<close>

definition next_points_back :: "state \<Rightarrow> ref \<Rightarrow> bool" where
  "next_points_back s q =
     (case next_of s q of
        None \<Rightarrow> True
      | Some g \<Rightarrow> is_kind s TYPE_GATE g \<and> prev_of s g = Some q)"

definition prev_points_back :: "state \<Rightarrow> ref \<Rightarrow> bool" where
  "prev_points_back s g =
     (case prev_of s g of
        None \<Rightarrow> True
      | Some q \<Rightarrow> is_kind s TYPE_QUBIT q \<and> next_of s q = Some g)"

definition link_symmetric :: "state \<Rightarrow> bool" where
  "link_symmetric s =
     (\<forall>i\<in>set (scene_items s). next_points_back s i \<and> prev_points_back s i)"

text \<open>The part of the symmetry that holds for \<open>connected_next\<close>: its target is a gate.\<close>

definition next_is_gate :: "state \<Rightarrow> ref \<Rightarrow> bool" where
  "next_is_gate s q =
     (case next_of s q of None \<Rightarrow> True | Some g \<Rightarrow> is_kind s TYPE_GATE g)"

subsection \<open>Lines and bindings\<close>

text \<open>
  A line of the scene belongs to an active binding when the qubit of its tag still has
  the gate of its tag as \<open>connected_next\<close>.
\<close>

definition line_is_active :: "state \<Rightarrow> ref \<Rightarrow> bool" where
  "line_is_active s i =
     (case heap s i of
        Some (Line l) \<Rightarrow>
          (case line_qubit l of
             None \<Rightarrow> False
           | Some q \<Rightarrow> line_gate l \<noteq> None \<and> next_of s q = line_gate l)
      | _ \<Rightarrow> True)"

definition no_stale_lines :: "state \<Rightarrow> bool" where
  "no_stale_lines s = (\<forall>i\<in>set (scene_items s). line_is_active s i)"

text \<open>Every link of an item has exactly one line.\<close>

definition links_drawn_once :: "state \<Rightarrow> ref \<Rightarrow> bool" where
  "links_drawn_once s i =
     ((case prev_of s i of None \<Rightarrow> True | Some q \<Rightarrow> lines_for s q i = 1) \<and>
      (case next_of s i of None \<Rightarrow> True | Some g \<Rightarrow> lines_for s i g = 1))"

subsection \<open>The invariant of the scene\<close>

text \<open>References in use are below the next unused one.\<close>

definition refs_below :: "state \<Rightarrow> bool" where
  "refs_below s =
     ((\<forall>r. heap s r \<noteq> None \<longrightarrow> r < next_ref s) \<and>
      (\<forall>r\<in>set (scene_items s). r < next_ref s))"

text \<open>
  A component with \<open>connected_prev\<close> set is a gate and the link leads to a qubit; a
  component with \<open>connected_next\<close> set is a qubit and the link leads to a gate.
\<close>

definition links_typed :: "state \<Rightarrow> bool" where
  "links_typed s =
     (\<forall>r x. heap s r = Some (Component x) \<longrightarrow>
        (\<forall>q. connected_prev x = Some q \<longrightarrow> component_type x = TYPE_GATE \<and> is_kind s TYPE_QUBIT q) \<and>
        (\<forall>g. connected_next x = Some g \<longrightarrow> component_type x = TYPE_QUBIT \<and> is_kind s TYPE_GATE g))"

text \<open>The qubit of a gate that is in the scene links back to the gate.\<close>

definition placed_gates_linked :: "state \<Rightarrow> bool" where
  "placed_gates_linked s =
     (\<forall>g gc q. g \<in> set (scene_items s) \<and> heap s g = Some (Component gc) \<and>
        connected_prev gc = Some q \<longrightarrow>
        (\<exists>qc. heap s q = Some (Component qc) \<and> connected_next qc = Some g))"

text \<open>No pair has two lines, and every link that is set has its line.\<close>

definition lines_unique :: "state \<Rightarrow> bool" where
  "lines_unique s = (\<forall>q g. lines_for s q g \<le> 1)"

definition links_have_line :: "state \<Rightarrow> bool" where
  "links_have_line s =
     (\<forall>r x. heap s r = Some (Component x) \<longrightarrow>
        (\<forall>q. connected_prev x = Some q \<longrightarrow> lines_for s q r = 1) \<and>
        (\<forall>g. connected_next x = Some g \<longrightarrow> lines_for s r g = 1))"

definition scene_inv :: "state \<Rightarrow> bool" where
  "scene_inv s =
     (refs_below s \<and> links_typed s \<and> placed_gates_linked s \<and> lines_unique s \<and>
      links_have_line s)"

subsection \<open>Example scenes\<close>

text \<open>A qubit at the origin and a gate four cells to its right, both just dropped.\<close>

definition example_qubit :: component where
  "example_qubit =
     \<lparr>component_name = ''qubit-0'', component_type = TYPE_QUBIT, grid_size = 24,
      connected_prev = None, connected_next = None, pos_x = 0, pos_y = 0,
      pixmap_width = 48, pixmap_height = 48\<rparr>"

definition example_gate :: component where
  "example_gate =
     \<lparr>component_name = ''Pauli-X'', component_type = TYPE_GATE, grid_size = 24,
      connected_prev = None, connected_next = None, pos_x = 96, pos_y = 0,
      pixmap_width = 48, pixmap_height = 48\<rparr>"

definition two_items :: state where
  "two_items =
     \<lparr>heap = (\<lambda>_. None)(0 \<mapsto> Component example_qubit, 1 \<mapsto> Component example_gate),
      scene_items = [1, 0], next_ref = 2, calls = [AddItem 0, AddItem 1]\<rparr>"

text \<open>
  Three qubits in a column and a gate four cells to the right of it, all just dropped.
  From the gate, at \<open>(96, 96)\<close>, the qubit 2 is nine cells away (96 + 120), the qubit 1
  eight cells (96 + 96), and the qubit 0 six cells (96 + 48); \<open>items()\<close> gives the gate,
  then the qubits 2, 1 and 0.
\<close>

definition three_qubits :: state where
  "three_qubits =
     \<lparr>heap = (\<lambda>_. None)
        (0 \<mapsto> Component (example_qubit\<lparr>pos_y := 48\<rparr>),
         1 \<mapsto> Component (example_qubit\<lparr>component_name := ''qubit-1'', pos_y := 192\<rparr>),
         2 \<mapsto> Component (example_qubit\<lparr>pos_y := 216\<rparr>),
         3 \<mapsto> Component (example_gate\<lparr>pos_y := 96\<rparr>)),
      scene_items = [3, 2, 1, 0], next_ref = 4,
      calls = [AddItem 0, AddItem 1, AddItem 2, AddItem 3]\<rparr>"



text \<open>The same scene with the gate dragged ten cells away from the qubit.\<close>

definition far_gate :: state where
  "far_gate = setPos 1 (240, 0) two_items"

text \<open>
  A qubit with the gate 1 attached (line 2), and a second gate 3 one cell away from the
  qubit in each direction: the scene after the first four events of \<open>evict_events\<close>.
\<close>

definition attached_scene :: state where
  "attached_scene =
     \<lparr>heap = (\<lambda>_. None)
        (0 \<mapsto> Component (example_qubit\<lparr>connected_next := Some 1\<rparr>),
         1 \<mapsto> Component (example_gate\<lparr>pos_x := 144, connected_prev := Some 0\<rparr>),
         2 \<mapsto> Line (connection_line 0 example_qubit 1 (example_gate\<lparr>pos_x := 144\<rparr>)),
         3 \<mapsto> Component (example_gate\<lparr>component_name := ''Pauli-Y'', pos_x := 24, pos_y := 24\<rparr>)),
      scene_items = [3, 2, 1, 0], next_ref = 4,
      calls = [AddItem 0, AddItem 1, RemoveItem None, AddItem 2, AddItem 3]\<rparr>"

text \<open>Every pixmap of the examples is 48 by 48.\<close>

definition example_assets :: "string \<Rightarrow> int \<times> int" where
  "example_assets name = (48, 48)"

text \<open>What an example scene consists of: its first objects, items, counter and calls.\<close>

definition snapshot :: "nat \<Rightarrow> state \<Rightarrow> obj option list \<times> ref list \<times> ref \<times> scene_call list" where
  "snapshot n s = (map (heap s) [0..<n], scene_items s, next_ref s, calls s)"

text \<open>
  Two qubits twenty cells apart; a gate is dropped near the first, released, dragged
  near the second and released again.
\<close>

definition rebind_events :: "event list" where
  "rebind_events =
     [Drop (Some ''0,qubit-0'') (13, 5), Drop (Some ''0,qubit-1'') (0, 480),
      Drop (Some ''1,Pauli-X'') (100, 3), Release 2, Move 2 (100, 480), Release 2]"

text \<open>One qubit; a gate is dropped and released near it, then a second gate.\<close>

definition evict_events :: "event list" where
  "evict_events =
     [Drop (Some ''0,qubit-0'') (13, 5), Drop (Some ''1,Pauli-X'') (100, 3), Release 1,
      Drop (Some ''1,Pauli-Y'') (30, 30), Release 3]"

section \<open>Auxiliary lemmas\<close>

subsection \<open>Arithmetic of the snaps\<close>









lemma floor_cell_le:
  fixes x :: rat
  assumes "0 < g"
  shows "of_int \<lfloor>x / of_int g\<rfloor> * of_int g \<le> x"
proof -
  have "of_int \<lfloor>x / of_int g\<rfloor> \<le> x / of_int g" by (rule of_int_floor_le)
  moreover have "(0::rat) < of_int g" using assms by simp
  ultimately show ?thesis by (simp only: pos_le_divide_eq)
qed

lemma floor_cell_gt:
  fixes x :: rat
  assumes "0 < g"
  shows "x - of_int g < of_int \<lfloor>x / of_int g\<rfloor> * of_int g"
proof -
  have "x / of_int g < of_int \<lfloor>x / of_int g\<rfloor> + 1" by linarith
  with assms have "x < (of_int \<lfloor>x / of_int g\<rfloor> + 1) * of_int g"
    by (simp add: pos_divide_less_eq)
  then show ?thesis by (simp add: algebra_simps)
qed

lemma snap_floor_eq:
  "g \<noteq> 0 \<Longrightarrow> snap_floor g p =
     Inr (of_int (\<lfloor>fst p / of_int g\<rfloor> * g), of_int (\<lfloor>snd p / of_int g\<rfloor> * g))"
  by (simp add: snap_floor_def py_mod_def)

subsection \<open>Splitting a payload\<close>

lemma split_on_nonempty: "split_on c t \<noteq> []"
  by (induction t) (auto split: list.splits)

lemma split_on_two_fields: "c \<in> set t \<Longrightarrow> \<exists>a b r. split_on c t = a # b # r"
proof (induction t)
  case Nil
  then show ?case by simp
next
  case (Cons x xs)
  show ?case
  proof (cases "x = c")
    case True
    then show ?thesis using split_on_nonempty [of c xs] by (cases "split_on c xs") auto
  next
    case False
    with Cons obtain a b r where "split_on c xs = a # b # r" by auto
    with False show ?thesis by simp
  qed
qed

lemma split_on_single_no_comma: "split_on c t = [a] \<Longrightarrow> c \<notin> set t"
  using split_on_two_fields [of c t] by auto

lemma split_on_hd: "split_on c t = hd (split_on c t) # tl (split_on c t)"
  by (cases t) (auto split: list.splits)

subsection \<open>Scene operations\<close>

lemma removeItem_simps [simp]:
  "heap (removeItem r s) = heap s"
  "next_ref (removeItem r s) = next_ref s"
  "calls (removeItem r s) = calls s @ [RemoveItem r]"
  "scene_items (removeItem None s) = scene_items s"
  "scene_items (removeItem (Some i) s) = removeAll i (scene_items s)"
  by (simp_all add: removeItem_def)

lemma addItem_simps [simp]:
  "heap (addItem r s) = heap s"
  "next_ref (addItem r s) = next_ref s"
  "calls (addItem r s) = calls s @ [AddItem r]"
  "scene_items (addItem r s) = (if r \<in> set (scene_items s) then scene_items s else r # scene_items s)"
  by (simp_all add: addItem_def)

lemma upd_component_simps [simp]:
  "scene_items (upd_component r f s) = scene_items s"
  "next_ref (upd_component r f s) = next_ref s"
  "calls (upd_component r f s) = calls s"
  by (simp_all add: upd_component_def split: option.splits obj.splits)

lemma heap_upd_component:
  "heap (upd_component r f s) =
     (case heap s r of Some (Component c) \<Rightarrow> (heap s)(r \<mapsto> Component (f c)) | _ \<Rightarrow> heap s)"
  by (simp add: upd_component_def split: option.splits obj.splits)

lemma is_line_of_heap_cong:
  "heap s' = heap s \<Longrightarrow> is_line_of s' = is_line_of s"
  by (intro ext) (simp add: is_line_of_def)

lemma is_line_of_upd_component [simp]:
  "is_line_of (upd_component r f s) = is_line_of s"
  by (intro ext) (auto simp: is_line_of_def heap_upd_component split: option.splits obj.splits)

lemma is_line_of_removeItem [simp]: "is_line_of (removeItem r s) = is_line_of s"
  by (rule is_line_of_heap_cong) simp

lemma remove_lines_heap [simp]: "heap (remove_lines q g xs s) = heap s"
  by (induction xs arbitrary: s) simp_all

lemma remove_lines_next_ref [simp]: "next_ref (remove_lines q g xs s) = next_ref s"
  by (induction xs arbitrary: s) simp_all

lemma remove_lines_items:
  "scene_items (remove_lines q g xs s) =
     filter (\<lambda>j. \<not> (j \<in> set xs \<and> is_line_of s q g j)) (scene_items s)"
proof (induction xs arbitrary: s)
  case Nil
  then show ?case by simp
next
  case (Cons i rest)
  show ?case
  proof (cases "is_line_of s q g i")
    case True
    then show ?thesis
      by (auto simp: Cons.IH removeAll_filter_not_eq intro!: filter_cong)
  next
    case False
    then show ?thesis
      by (auto simp: Cons.IH removeAll_filter_not_eq intro!: filter_cong)
  qed
qed

lemma remove_lines_calls:
  "calls (remove_lines q g xs s) =
     calls s @ map (\<lambda>j. RemoveItem (Some j)) (filter (is_line_of s q g) xs)"
  by (induction xs arbitrary: s) simp_all

subsection \<open>Connection lines\<close>

lemma add_connection_line_heap:
  assumes "heap s q = Some (Component qc)" and "heap s g = Some (Component gc)"
  shows "heap (add_connection_line q g s) =
           (heap s)(next_ref s \<mapsto> Line (connection_line q qc g gc))"
  using assms by (simp add: add_connection_line_def Let_def)

lemma add_connection_line_items:
  assumes "heap s q = Some (Component qc)" and "heap s g = Some (Component gc)"
  shows "scene_items (add_connection_line q g s) =
           (let its = filter (\<lambda>j. \<not> is_line_of s q g j) (scene_items s)
            in if next_ref s \<in> set its then its else next_ref s # its)"
  using assms by (simp add: add_connection_line_def Let_def remove_lines_items cong: filter_cong)

lemma add_connection_line_calls:
  assumes "heap s q = Some (Component qc)" and "heap s g = Some (Component gc)"
  shows "calls (add_connection_line q g s) =
           calls s @ map (\<lambda>j. RemoveItem (Some j)) (filter (is_line_of s q g) (scene_items s))
             @ [AddItem (next_ref s)]"
  using assms by (simp add: add_connection_line_def Let_def remove_lines_calls)

lemma add_connection_line_next_ref:
  assumes "heap s q = Some (Component qc)" and "heap s g = Some (Component gc)"
  shows "next_ref (add_connection_line q g s) = Suc (next_ref s)"
  using assms by (simp add: add_connection_line_def Let_def)

subsection \<open>The scan and the binding\<close>

lemma TYPE_GATE_neq_QUBIT: "TYPE_GATE \<noteq> TYPE_QUBIT"
  by (simp add: TYPE_GATE_def TYPE_QUBIT_def)

lemma scan_find:
  "component_type cc = TYPE_GATE \<Longrightarrow>
   scan c cc xs s =
     (case find (is_candidate c cc s) xs of
        None \<Rightarrow> s
      | Some q \<Rightarrow> (case heap s q of Some (Component qc) \<Rightarrow> connect c cc q qc s | _ \<Rightarrow> s))"
  by (induction xs) (simp_all add: is_candidate_def manhattan_def split: option.splits obj.splits)

lemma scan_not_gate:
  "component_type cc \<noteq> TYPE_GATE \<Longrightarrow> scan c cc xs s = s"
  by (induction xs) (auto split: option.splits obj.splits)

lemma check_connections_gate:
  "heap s c = Some (Component cc) \<Longrightarrow> component_type cc = TYPE_GATE \<Longrightarrow>
   check_connections c s = bind_first_candidate c cc s"
  by (simp add: check_connections_def bind_first_candidate_def scan_find TYPE_GATE_neq_QUBIT)

lemma find_first_match:
  "\<forall>i\<in>set xs. \<not> P i \<Longrightarrow> P q \<Longrightarrow> find P (xs @ q # ys) = Some q"
  by (induction xs) auto

lemma find_candidate_D:
  "find (is_candidate c cc s) xs = Some q \<Longrightarrow>
   q \<in> set xs \<and> q \<noteq> c \<and>
   (\<exists>qc. heap s q = Some (Component qc) \<and> component_type qc = TYPE_QUBIT \<and>
         \<bar>pos_x cc - pos_x qc\<bar> + \<bar>pos_y cc - pos_y qc\<bar> \<le> 8 * of_int (grid_size cc))"
  by (auto simp: find_Some_iff is_candidate_def split: option.splits obj.splits)

lemma connect_pre_line:
  "connect c cc i ic s = add_connection_line i c (pre_line_state c cc i ic s)"
  by (simp add: connect_def pre_line_state_def Let_def)

lemma pre_line_heap:
  assumes "heap s c = Some (Component cc)" and "heap s i = Some (Component ic)" and "i \<noteq> c"
  shows "heap (pre_line_state c cc i ic s) =
           (heap s)(c \<mapsto> Component (moved_gate cc i ic),
                    i \<mapsto> Component (ic\<lparr>connected_next := Some c\<rparr>))"
  using assms
  by (simp add: pre_line_state_def setPos_def heap_upd_component moved_gate_def)

lemma pre_line_items:
  "scene_items (pre_line_state c cc i ic s) = items_after_eviction c ic s"
  by (simp add: pre_line_state_def setPos_def items_after_eviction_def split: option.splits)

lemma pre_line_next_ref:
  "next_ref (pre_line_state c cc i ic s) = next_ref s"
  by (simp add: pre_line_state_def setPos_def)

lemma pre_line_calls:
  "calls (pre_line_state c cc i ic s) =
     calls s @ (if connected_next ic \<noteq> Some c then [RemoveItem (connected_next ic)] else [])"
  by (simp add: pre_line_state_def setPos_def)

lemma pre_line_is_line_of:
  "is_line_of (pre_line_state c cc i ic s) = is_line_of s"
  by (simp add: pre_line_state_def setPos_def)

lemma connect_heap:
  assumes "heap s c = Some (Component cc)" and "heap s i = Some (Component ic)" and "i \<noteq> c"
  shows "heap (connect c cc i ic s) =
           (heap s)(c \<mapsto> Component (moved_gate cc i ic),
                    i \<mapsto> Component (ic\<lparr>connected_next := Some c\<rparr>),
                    next_ref s \<mapsto> Line (connection_line i (ic\<lparr>connected_next := Some c\<rparr>)
                                              c (moved_gate cc i ic)))"
proof -
  let ?p = "pre_line_state c cc i ic s"
  have hi: "heap ?p i = Some (Component (ic\<lparr>connected_next := Some c\<rparr>))"
    using assms by (simp add: pre_line_heap)
  have hc: "heap ?p c = Some (Component (moved_gate cc i ic))"
    using assms by (simp add: pre_line_heap)
  show ?thesis
    unfolding connect_pre_line add_connection_line_heap [OF hi hc]
    using assms by (simp add: pre_line_heap pre_line_next_ref)
qed

lemma connect_items:
  assumes "heap s c = Some (Component cc)" and "heap s i = Some (Component ic)" and "i \<noteq> c"
  shows "scene_items (connect c cc i ic s) =
           (let its = filter (\<lambda>j. \<not> is_line_of s i c j) (items_after_eviction c ic s)
            in if next_ref s \<in> set its then its else next_ref s # its)"
proof -
  let ?p = "pre_line_state c cc i ic s"
  have hi: "heap ?p i = Some (Component (ic\<lparr>connected_next := Some c\<rparr>))"
    using assms by (simp add: pre_line_heap)
  have hc: "heap ?p c = Some (Component (moved_gate cc i ic))"
    using assms by (simp add: pre_line_heap)
  show ?thesis
    unfolding connect_pre_line add_connection_line_items [OF hi hc]
    by (simp add: pre_line_items pre_line_next_ref pre_line_is_line_of Let_def)
qed

lemma connect_calls:
  assumes "heap s c = Some (Component cc)" and "heap s i = Some (Component ic)" and "i \<noteq> c"
  shows "calls (connect c cc i ic s) =
           calls s @ (if connected_next ic \<noteq> Some c then [RemoveItem (connected_next ic)] else [])
             @ map (\<lambda>j. RemoveItem (Some j))
                 (filter (is_line_of s i c) (items_after_eviction c ic s))
             @ [AddItem (next_ref s)]"
proof -
  let ?p = "pre_line_state c cc i ic s"
  have hi: "heap ?p i = Some (Component (ic\<lparr>connected_next := Some c\<rparr>))"
    using assms by (simp add: pre_line_heap)
  have hc: "heap ?p c = Some (Component (moved_gate cc i ic))"
    using assms by (simp add: pre_line_heap)
  show ?thesis
    unfolding connect_pre_line add_connection_line_calls [OF hi hc]
    by (simp add: pre_line_items pre_line_next_ref pre_line_is_line_of pre_line_calls)
qed

lemma connect_next_ref:
  assumes "heap s c = Some (Component cc)" and "heap s i = Some (Component ic)" and "i \<noteq> c"
  shows "next_ref (connect c cc i ic s) = Suc (next_ref s)"
proof -
  let ?p = "pre_line_state c cc i ic s"
  have hi: "heap ?p i = Some (Component (ic\<lparr>connected_next := Some c\<rparr>))"
    using assms by (simp add: pre_line_heap)
  have hc: "heap ?p c = Some (Component (moved_gate cc i ic))"
    using assms by (simp add: pre_line_heap)
  show ?thesis
    unfolding connect_pre_line add_connection_line_next_ref [OF hi hc]
    by (simp add: pre_line_next_ref)
qed

subsection \<open>Drops\<close>

lemma dropEvent_Inr:
  assumes "dropEvent assets g (Some t) p s = Inr s'"
  shows "\<exists>d0 cname rest ctype q.
           split_on (CHR '','') t = d0 # cname # rest \<and>
           (if isnumeric d0 then py_int d0 else Inr TYPE_QUBIT) = Inr ctype \<and>
           snap_floor g p = Inr q \<and>
           s' = dropped assets g cname ctype q s"
  using assms
  by (auto simp: dropEvent_def dropped_def Let_def split: list.splits sum.splits if_splits)

lemma dropped_heap:
  "heap (dropped assets g cname ctype q s) =
     (heap s)(next_ref s \<mapsto>
        Component ((new_component assets g cname ctype)\<lparr>pos_x := fst q, pos_y := snd q\<rparr>))"
  by (simp add: dropped_def setPos_def heap_upd_component)

lemma dropped_items:
  "scene_items (dropped assets g cname ctype q s) =
     (if next_ref s \<in> set (scene_items s) then scene_items s else next_ref s # scene_items s)"
  by (simp add: dropped_def setPos_def)

lemma dropped_next_ref: "next_ref (dropped assets g cname ctype q s) = Suc (next_ref s)"
  by (simp add: dropped_def setPos_def)

subsection \<open>The invariant: field updates and drops\<close>

lemma scene_inv_initial: "scene_inv initial_state"
  by (simp add: scene_inv_def initial_state_def refs_below_def links_typed_def
      placed_gates_linked_def lines_unique_def links_have_line_def lines_for_def)

lemma heap_upd_component_cases:
  "heap (upd_component r f s) r' =
     (if r' = r then (case heap s r of Some (Component x) \<Rightarrow> Some (Component (f x)) | y \<Rightarrow> y)
      else heap s r')"
  by (simp add: heap_upd_component split: option.splits obj.splits)

lemma is_kind_upd_component:
  assumes "\<And>x. component_type (f x) = component_type x"
  shows "is_kind (upd_component r f s) = is_kind s"
  by (intro ext) (simp add: is_kind_def heap_upd_component_cases assms split: option.splits obj.splits)

lemma lines_for_upd_component [simp]:
  "lines_for (upd_component r f s) = lines_for s"
  by (intro ext) (simp add: lines_for_def)

lemma heap_upd_component_Component:
  "heap (upd_component r f s) r' = Some (Component y) \<longleftrightarrow>
     (if r' = r then (\<exists>x. heap s r = Some (Component x) \<and> y = f x)
      else heap s r' = Some (Component y))"
  by (auto simp: heap_upd_component_cases split: option.splits obj.splits)

lemma scene_inv_upd_component:
  assumes f: "\<And>x. component_type (f x) = component_type x"
      "\<And>x. connected_prev (f x) = connected_prev x"
      "\<And>x. connected_next (f x) = connected_next x"
    and "scene_inv s"
  shows "scene_inv (upd_component r f s)"
proof -
  let ?s = "upd_component r f s"
  from \<open>scene_inv s\<close> have rb: "refs_below s" and lt: "links_typed s"
    and pg: "placed_gates_linked s" and lu: "lines_unique s" and lh: "links_have_line s"
    by (simp_all add: scene_inv_def)
  have "refs_below ?s"
    using rb by (auto simp: refs_below_def heap_upd_component_cases split: if_splits option.splits obj.splits)
  moreover have "links_typed ?s"
    unfolding links_typed_def is_kind_upd_component [of f, OF f(1)]
    using lt by (auto simp: links_typed_def heap_upd_component_Component f split: if_splits)
  moreover have "placed_gates_linked ?s"
    unfolding placed_gates_linked_def
  proof (intro allI impI, elim conjE)
    fix g gc q
    assume g: "g \<in> set (scene_items ?s)" and h: "heap ?s g = Some (Component gc)"
      and p: "connected_prev gc = Some q"
    from h obtain gc0 where h0: "heap s g = Some (Component gc0)" and p0: "connected_prev gc0 = connected_prev gc"
      by (auto simp: heap_upd_component_Component f split: if_splits)
    from g have g0: "g \<in> set (scene_items s)" by simp
    from p p0 have "connected_prev gc0 = Some q" by simp
    with pg g0 h0 have "\<exists>qc. heap s q = Some (Component qc) \<and> connected_next qc = Some g"
      unfolding placed_gates_linked_def by blast
    then obtain qc where q: "heap s q = Some (Component qc)" "connected_next qc = Some g"
      by blast
    show "\<exists>qc. heap ?s q = Some (Component qc) \<and> connected_next qc = Some g"
    proof (cases "q = r")
      case True
      with q have "heap ?s q = Some (Component (f qc))" by (simp add: heap_upd_component_cases)
      with q f show ?thesis by simp
    next
      case False
      with q show ?thesis by (simp add: heap_upd_component_cases)
    qed
  qed
  moreover have "lines_unique ?s"
    using lu by (simp add: lines_unique_def)
  moreover have "links_have_line ?s"
    unfolding links_have_line_def
    using lh by (auto simp: links_have_line_def heap_upd_component_Component f split: if_splits)
  ultimately show ?thesis by (simp add: scene_inv_def)
qed

lemma scene_inv_setPos: "scene_inv s \<Longrightarrow> scene_inv (setPos r p s)"
  unfolding setPos_def by (rule scene_inv_upd_component) simp_all

lemma refs_below_fresh:
  assumes "refs_below s"
  shows "heap s (next_ref s) = None" and "next_ref s \<notin> set (scene_items s)"
  using assms by (auto simp: refs_below_def)

lemma is_line_of_fresh: "heap s n = None \<Longrightarrow> \<not> is_line_of s q g n"
  by (simp add: is_line_of_def)

lemma is_kind_Component: "is_kind s k r \<longleftrightarrow> (\<exists>x. heap s r = Some (Component x) \<and> component_type x = k)"
  by (auto simp: is_kind_def split: option.splits obj.splits)

lemma scene_inv_dropped:
  assumes "scene_inv s"
  shows "scene_inv (dropped assets g cname ctype p s)"
proof -
  let ?n = "next_ref s"
  let ?nc = "(new_component assets g cname ctype)\<lparr>pos_x := fst p, pos_y := snd p\<rparr>"
  let ?s = "dropped assets g cname ctype p s"
  from assms have rb: "refs_below s" and lt: "links_typed s"
    and pg: "placed_gates_linked s" and lu: "lines_unique s" and lh: "links_have_line s"
    by (simp_all add: scene_inv_def)
  note fresh = refs_below_fresh [OF rb]
  have heap': "heap ?s = (heap s)(?n \<mapsto> Component ?nc)" by (rule dropped_heap)
  have items': "scene_items ?s = ?n # scene_items s"
    using fresh by (simp add: dropped_items)
  have nolinks: "connected_prev ?nc = None" "connected_next ?nc = None"
    by (simp_all add: new_component_def)
  have old: "heap ?s r = heap s r" if "heap s r \<noteq> None" for r
    using that fresh by (auto simp: heap')
  have line: "is_line_of ?s = is_line_of s"
    using fresh by (intro ext) (auto simp: is_line_of_def heap')
  have count: "lines_for ?s q' g' = lines_for s q' g'" for q' g'
    using fresh by (simp add: lines_for_def line items' is_line_of_fresh)
  have kind: "is_kind ?s k r" if "is_kind s k r" for k r
    using that old [of r] by (auto simp: is_kind_Component)
  have comp: "heap s r = Some (Component x)"
    if "heap ?s r = Some (Component x)" "connected_prev x \<noteq> None \<or> connected_next x \<noteq> None" for r x
    using that nolinks by (auto simp: heap' split: if_splits)
  have "refs_below ?s"
    using rb by (auto simp: refs_below_def heap' items' dropped_next_ref less_Suc_eq)
  moreover have "links_typed ?s"
    unfolding links_typed_def
  proof (intro allI impI conjI)
    fix r x q
    assume "heap ?s r = Some (Component x)" "connected_prev x = Some q"
    with comp have "heap s r = Some (Component x)" by simp
    with lt \<open>connected_prev x = Some q\<close>
    have "component_type x = TYPE_GATE \<and> is_kind s TYPE_QUBIT q"
      unfolding links_typed_def by blast
    then show "component_type x = TYPE_GATE" "is_kind ?s TYPE_QUBIT q"
      using kind by simp_all
  next
    fix r x g'
    assume "heap ?s r = Some (Component x)" "connected_next x = Some g'"
    with comp have "heap s r = Some (Component x)" by simp
    with lt \<open>connected_next x = Some g'\<close>
    have "component_type x = TYPE_QUBIT \<and> is_kind s TYPE_GATE g'"
      unfolding links_typed_def by blast
    then show "component_type x = TYPE_QUBIT" "is_kind ?s TYPE_GATE g'"
      using kind by simp_all
  qed
  moreover have "placed_gates_linked ?s"
    unfolding placed_gates_linked_def
  proof (intro allI impI, elim conjE)
    fix g' gc q
    assume g: "g' \<in> set (scene_items ?s)" and h: "heap ?s g' = Some (Component gc)"
      and p: "connected_prev gc = Some q"
    from h p comp have h0: "heap s g' = Some (Component gc)" by simp
    with fresh have "g' \<noteq> ?n" by auto
    with g have "g' \<in> set (scene_items s)" by (simp add: items')
    with pg h0 p have "\<exists>qc. heap s q = Some (Component qc) \<and> connected_next qc = Some g'"
      unfolding placed_gates_linked_def by blast
    then obtain qc where q: "heap s q = Some (Component qc)" "connected_next qc = Some g'"
      by blast
    with old [of q] show "\<exists>qc. heap ?s q = Some (Component qc) \<and> connected_next qc = Some g'"
      by simp
  qed
  moreover have "lines_unique ?s"
    using lu by (simp add: lines_unique_def count)
  moreover have "links_have_line ?s"
    unfolding links_have_line_def
  proof (intro allI impI conjI)
    fix r x q
    assume "heap ?s r = Some (Component x)" "connected_prev x = Some q"
    with comp have "heap s r = Some (Component x)" by simp
    with lh \<open>connected_prev x = Some q\<close> show "lines_for ?s q r = 1"
      unfolding links_have_line_def count by blast
  next
    fix r x g'
    assume "heap ?s r = Some (Component x)" "connected_next x = Some g'"
    with comp have "heap s r = Some (Component x)" by simp
    with lh \<open>connected_next x = Some g'\<close> show "lines_for ?s r g' = 1"
      unfolding links_have_line_def count by blast
  qed
  ultimately show ?thesis by (simp add: scene_inv_def)
qed

subsection \<open>The invariant: bindings\<close>

lemma filter_removeAll_other: "\<not> P x \<Longrightarrow> filter P (removeAll x xs) = filter P xs"
  by (induction xs) auto

lemma is_line_of_tag_unique:
  "is_line_of s q g j \<Longrightarrow> is_line_of s q' g' j \<Longrightarrow> q' = q \<and> g' = g"
  by (auto simp: is_line_of_def split: option.splits obj.splits)

lemma items_after_eviction_subset:
  "set (items_after_eviction c ic s) \<subseteq> set (scene_items s)"
  by (auto simp: items_after_eviction_def split: option.splits)

lemma filter_lines_after_eviction:
  assumes "\<And>old. connected_next ic = Some old \<Longrightarrow> \<not> is_line_of s q g old"
  shows "filter (is_line_of s q g) (items_after_eviction c ic s) =
           filter (is_line_of s q g) (scene_items s)"
  using assms by (auto simp: items_after_eviction_def filter_removeAll_other split: option.splits)

lemma is_kind_not_line: "is_kind s k r \<Longrightarrow> \<not> is_line_of s q g r"
  by (auto simp: is_kind_def is_line_of_def split: option.splits obj.splits)

lemma connect_lines_for:
  assumes hc: "heap s c = Some (Component cc)" and hi: "heap s i = Some (Component ic)"
    and ne: "i \<noteq> c" and rb: "refs_below s"
    and old: "\<And>old. connected_next ic = Some old \<Longrightarrow> is_kind s TYPE_GATE old"
  shows "lines_for (connect c cc i ic s) q g =
           (if q = i \<and> g = c then 1 else lines_for s q g)"
proof -
  let ?s = "connect c cc i ic s"
  let ?n = "next_ref s"
  let ?iae = "items_after_eviction c ic s"
  note fresh = refs_below_fresh [OF rb]
  from fresh hc hi have n: "?n \<noteq> c" "?n \<noteq> i" by auto
  have nin: "?n \<notin> set ?iae"
    using fresh(2) items_after_eviction_subset by blast
  have items': "scene_items ?s = ?n # filter (\<lambda>j. \<not> is_line_of s i c j) ?iae"
    using nin by (simp add: connect_items [OF hc hi ne] Let_def)
  have ln: "is_line_of ?s q g ?n \<longleftrightarrow> q = i \<and> g = c"
    by (auto simp: is_line_of_def connect_heap [OF hc hi ne] connection_line_def)
  have lj: "is_line_of ?s q g j = is_line_of s q g j" if "j \<noteq> ?n" for j
    using that hc hi by (auto simp: is_line_of_def connect_heap [OF hc hi ne])
  let ?rest = "filter (\<lambda>j. \<not> is_line_of s i c j) ?iae"
  have eqf: "filter (is_line_of ?s q g) ?rest = filter (is_line_of s q g) ?rest"
  proof (rule filter_cong [OF refl])
    fix j assume "j \<in> set ?rest"
    with nin have "j \<noteq> ?n" by auto
    then show "is_line_of ?s q g j = is_line_of s q g j" by (rule lj)
  qed
  have "lines_for ?s q g = length (filter (is_line_of ?s q g) (?n # ?rest))"
    by (simp only: lines_for_def items')
  also have "\<dots> = (if is_line_of ?s q g ?n then 1 else 0) +
                   length (filter (is_line_of ?s q g) ?rest)"
    by simp
  finally have cnt: "lines_for ?s q g =
      (if q = i \<and> g = c then 1 else 0) + length (filter (is_line_of s q g) ?rest)"
    by (simp only: eqf ln)
  show ?thesis
  proof (cases "q = i \<and> g = c")
    case True
    then have "filter (is_line_of s q g) ?rest = []" by simp
    then have "lines_for ?s q g = (if q = i \<and> g = c then 1 else 0) + 0"
      by (simp only: cnt list.size)
    with True show ?thesis by simp
  next
    case False
    have "filter (is_line_of s q g) ?rest = filter (is_line_of s q g) ?iae"
      unfolding filter_filter
    proof (rule filter_cong [OF refl])
      fix j assume "j \<in> set ?iae"
      show "(\<not> is_line_of s i c j \<and> is_line_of s q g j) = is_line_of s q g j"
        using False is_line_of_tag_unique [of s q g j i c] by blast
    qed
    also have "\<dots> = filter (is_line_of s q g) (scene_items s)"
      by (rule filter_lines_after_eviction) (auto dest!: old is_kind_not_line)
    finally have e: "filter (is_line_of s q g) ?rest = filter (is_line_of s q g) (scene_items s)" .
    have "lines_for s q g = length (filter (is_line_of s q g) ?rest)"
      unfolding e by (simp add: lines_for_def)
    with False show ?thesis unfolding cnt by simp
  qed
qed

lemma scene_inv_connect:
  assumes hc: "heap s c = Some (Component cc)" and hi: "heap s i = Some (Component ic)"
    and ne: "i \<noteq> c"
    and tc: "component_type cc = TYPE_GATE" and ti: "component_type ic = TYPE_QUBIT"
    and "scene_inv s"
  shows "scene_inv (connect c cc i ic s)"
proof -
  let ?s = "connect c cc i ic s"
  let ?n = "next_ref s"
  let ?cc = "moved_gate cc i ic"
  let ?ic = "ic\<lparr>connected_next := Some c\<rparr>"
  let ?iae = "items_after_eviction c ic s"
  from \<open>scene_inv s\<close> have rb: "refs_below s" and lt: "links_typed s"
    and pg: "placed_gates_linked s" and lu: "lines_unique s" and lh: "links_have_line s"
    by (simp_all add: scene_inv_def)
  note fresh = refs_below_fresh [OF rb]
  from fresh hc hi have n: "?n \<noteq> c" "?n \<noteq> i" by auto
  note heap' = connect_heap [OF hc hi ne]
  have hn: "heap ?s ?n = Some (Line (connection_line i ?ic c ?cc))" by (simp add: heap')
  have hi': "heap ?s i = Some (Component ?ic)" using n by (simp add: heap')
  have hc': "heap ?s c = Some (Component ?cc)" using n ne by (simp add: heap')
  have other: "heap ?s r = heap s r" if "r \<noteq> ?n" "r \<noteq> i" "r \<noteq> c" for r
    using that by (simp add: heap')
  have nin: "?n \<notin> set ?iae"
    using fresh(2) items_after_eviction_subset by blast
  have items': "scene_items ?s = ?n # filter (\<lambda>j. \<not> is_line_of s i c j) ?iae"
    using nin by (simp add: connect_items [OF hc hi ne] Let_def)
  have placed: "r \<in> set ?iae" if "r \<in> set (scene_items ?s)" "r \<noteq> ?n" for r
    using that by (auto simp: items')
  have old: "is_kind s TYPE_GATE old" if "connected_next ic = Some old" for old
    using lt hi that unfolding links_typed_def by blast
  have noprev: "connected_prev ic = None"
  proof (cases "connected_prev ic")
    case (Some q)
    with lt hi have "component_type ic = TYPE_GATE" unfolding links_typed_def by blast
    with ti show ?thesis by (simp add: TYPE_GATE_def TYPE_QUBIT_def)
  qed simp
  have nonext: "connected_next cc = None"
  proof (cases "connected_next cc")
    case (Some g)
    with lt hc have "component_type cc = TYPE_QUBIT" unfolding links_typed_def by blast
    with tc show ?thesis by (simp add: TYPE_GATE_def TYPE_QUBIT_def)
  qed simp
  have count: "lines_for ?s q g = (if q = i \<and> g = c then 1 else lines_for s q g)" for q g
    by (rule connect_lines_for [OF hc hi ne rb old])
  have kind: "is_kind ?s k r" if "is_kind s k r" for k r
  proof -
    from that obtain x where x: "heap s r = Some (Component x)" "component_type x = k"
      by (auto simp: is_kind_Component)
    with fresh have rn: "r \<noteq> ?n" by auto
    consider "r = i" | "r = c" | "r \<noteq> i" "r \<noteq> c" by blast
    then show ?thesis
    proof cases
      case 1
      with x hi have "component_type ic = k" by simp
      with 1 show ?thesis by (simp add: is_kind_def hi')
    next
      case 2
      with x hc have "component_type cc = k" by simp
      with 2 show ?thesis by (simp add: is_kind_def hc' moved_gate_def)
    next
      case 3
      with rn x other [of r] show ?thesis by (simp add: is_kind_def)
    qed
  qed
  have comp_cases: "(r = i \<and> x = ?ic) \<or> (r = c \<and> x = ?cc) \<or>
                    (r \<noteq> i \<and> r \<noteq> c \<and> r \<noteq> ?n \<and> heap s r = Some (Component x))"
    if "heap ?s r = Some (Component x)" for r x
    using that hn hi' hc' other [of r] by (cases "r = ?n"; cases "r = i"; cases "r = c") auto
  have lc: "c < ?n" "i < ?n"
    using rb hc hi by (auto simp: refs_below_def)
  have "refs_below ?s"
    unfolding refs_below_def
  proof (intro conjI allI ballI impI)
    fix r assume "heap ?s r \<noteq> None"
    then have "r = ?n \<or> r = i \<or> r = c \<or> heap s r \<noteq> None"
      using other [of r] by (cases "r = ?n"; cases "r = i"; cases "r = c") simp_all
    with rb lc show "r < next_ref ?s"
      by (auto simp: refs_below_def connect_next_ref [OF hc hi ne] less_Suc_eq)
  next
    fix r assume "r \<in> set (scene_items ?s)"
    then have "r = ?n \<or> r \<in> set (scene_items s)"
      using items_after_eviction_subset [of c ic s] by (auto simp: items')
    with rb show "r < next_ref ?s"
      by (auto simp: refs_below_def connect_next_ref [OF hc hi ne] less_Suc_eq)
  qed
  moreover have "links_typed ?s"
    unfolding links_typed_def
  proof (intro allI impI conjI)
    fix r x q
    assume h: "heap ?s r = Some (Component x)" and p: "connected_prev x = Some q"
    from comp_cases [OF h] p noprev
    consider "r = c" "x = ?cc" | "r \<noteq> i" "r \<noteq> c" "heap s r = Some (Component x)"
      by auto
    then show "component_type x = TYPE_GATE"
    proof cases
      case 1
      then show ?thesis using tc by (simp add: moved_gate_def)
    next
      case 2
      with lt p show ?thesis unfolding links_typed_def by blast
    qed
    from comp_cases [OF h] p noprev
    consider "r = c" "x = ?cc" | "r \<noteq> i" "r \<noteq> c" "heap s r = Some (Component x)"
      by auto
    then show "is_kind ?s TYPE_QUBIT q"
    proof cases
      case 1
      with p have "q = i" by (simp add: moved_gate_def)
      with hi' ti show ?thesis by (simp add: is_kind_Component)
    next
      case 2
      with lt p have "is_kind s TYPE_QUBIT q" unfolding links_typed_def by blast
      then show ?thesis by (rule kind)
    qed
  next
    fix r x g
    assume h: "heap ?s r = Some (Component x)" and p: "connected_next x = Some g"
    from comp_cases [OF h] p nonext
    consider "r = i" "x = ?ic" | "r \<noteq> i" "r \<noteq> c" "heap s r = Some (Component x)"
      by (auto simp: moved_gate_def)
    then show "component_type x = TYPE_QUBIT"
    proof cases
      case 1
      then show ?thesis using ti by simp
    next
      case 2
      with lt p show ?thesis unfolding links_typed_def by blast
    qed
    from comp_cases [OF h] p nonext
    consider "r = i" "x = ?ic" | "r \<noteq> i" "r \<noteq> c" "heap s r = Some (Component x)"
      by (auto simp: moved_gate_def)
    then show "is_kind ?s TYPE_GATE g"
    proof cases
      case 1
      with p have "g = c" by simp
      with hc' tc show ?thesis by (simp add: is_kind_Component moved_gate_def)
    next
      case 2
      with lt p have "is_kind s TYPE_GATE g" unfolding links_typed_def by blast
      then show ?thesis by (rule kind)
    qed
  qed
  moreover have "placed_gates_linked ?s"
    unfolding placed_gates_linked_def
  proof (intro allI impI, elim conjE)
    fix g gc q
    assume g: "g \<in> set (scene_items ?s)" and h: "heap ?s g = Some (Component gc)"
      and p: "connected_prev gc = Some q"
    from comp_cases [OF h] p noprev
    consider "g = c" "gc = ?cc"
      | "g \<noteq> i" "g \<noteq> c" "g \<noteq> ?n" "heap s g = Some (Component gc)"
      by auto
    then show "\<exists>qc. heap ?s q = Some (Component qc) \<and> connected_next qc = Some g"
    proof cases
      case 1
      with p have "q = i" by (simp add: moved_gate_def)
      with hi' 1 show ?thesis by simp
    next
      case 2
      from placed [OF g 2(3)] have gi: "g \<in> set ?iae" .
      then have g0: "g \<in> set (scene_items s)"
        using items_after_eviction_subset by blast
      with pg 2 p have "\<exists>qc. heap s q = Some (Component qc) \<and> connected_next qc = Some g"
        unfolding placed_gates_linked_def by blast
      then obtain qc where q: "heap s q = Some (Component qc)" "connected_next qc = Some g"
        by blast
      with fresh have qn: "q \<noteq> ?n" by auto
      have qi: "q \<noteq> i"
      proof
        assume "q = i"
        with q hi have "connected_next ic = Some g" by simp
        with 2(2) have "?iae = removeAll g (scene_items s)"
          by (simp add: items_after_eviction_def)
        with gi show False by simp
      qed
      show ?thesis
      proof (cases "q = c")
        case True
        with q hc have "connected_next cc = Some g" by simp
        with nonext show ?thesis by simp
      next
        case False
        with qn qi q other [of q] show ?thesis by simp
      qed
    qed
  qed
  moreover have "lines_unique ?s"
    using lu by (simp add: lines_unique_def count)
  moreover have "links_have_line ?s"
    unfolding links_have_line_def
  proof (intro allI impI conjI)
    fix r x q
    assume h: "heap ?s r = Some (Component x)" and p: "connected_prev x = Some q"
    from comp_cases [OF h] p noprev
    consider "r = c" "x = ?cc" | "r \<noteq> i" "r \<noteq> c" "heap s r = Some (Component x)"
      by auto
    then show "lines_for ?s q r = 1"
    proof cases
      case 1
      with p have "q = i" by (simp add: moved_gate_def)
      moreover have "lines_for ?s i c = 1" by (simp add: count)
      ultimately show ?thesis using 1(1) by simp
    next
      case 2
      with lh p have "lines_for s q r = 1" unfolding links_have_line_def by blast
      then show ?thesis by (simp add: count)
    qed
  next
    fix r x g
    assume h: "heap ?s r = Some (Component x)" and p: "connected_next x = Some g"
    from comp_cases [OF h] p nonext
    consider "r = i" "x = ?ic" | "r \<noteq> i" "r \<noteq> c" "heap s r = Some (Component x)"
      by (auto simp: moved_gate_def)
    then show "lines_for ?s r g = 1"
    proof cases
      case 1
      with p have "g = c" by simp
      moreover have "lines_for ?s i c = 1" by (simp add: count)
      ultimately show ?thesis using 1(1) by simp
    next
      case 2
      with lh p have "lines_for s r g = 1" unfolding links_have_line_def by blast
      then show ?thesis by (simp add: count)
    qed
  qed
  ultimately show ?thesis by (simp add: scene_inv_def)
qed

subsection \<open>The invariant: events and runs\<close>

lemma scene_inv_check_connections:
  assumes "scene_inv s"
  shows "scene_inv (check_connections c s)"
proof (cases "heap s c")
  case None
  with assms show ?thesis by (simp add: check_connections_def)
next
  case (Some ob)
  show ?thesis
  proof (cases ob)
    case (Line l)
    with Some assms show ?thesis by (simp add: check_connections_def)
  next
    case (Component cc)
    with Some have hc: "heap s c = Some (Component cc)" by simp
    show ?thesis
    proof (cases "component_type cc = TYPE_GATE")
      case False
      with hc assms show ?thesis by (simp add: check_connections_def scan_not_gate)
    next
      case True
      show ?thesis
      proof (cases "find (is_candidate c cc s) (scene_items s)")
        case None
        with hc True assms show ?thesis
          by (simp add: check_connections_gate bind_first_candidate_def)
      next
        case (Some q)
        from find_candidate_D [OF Some] obtain qc
          where q: "q \<noteq> c" "heap s q = Some (Component qc)" "component_type qc = TYPE_QUBIT"
          by blast
        have "check_connections c s = connect c cc q qc s"
          using hc True Some q by (simp add: check_connections_gate bind_first_candidate_def)
        with scene_inv_connect [OF hc q(2) q(1) True q(3) assms] show ?thesis by simp
      qed
    qed
  qed
qed

lemma scene_inv_mouseReleaseEvent:
  assumes "scene_inv s" and "mouseReleaseEvent c s = Inr s'"
  shows "scene_inv s'"
  using assms
  by (auto simp: mouseReleaseEvent_def Let_def scene_inv_setPos scene_inv_check_connections
      split: option.splits obj.splits sum.splits if_splits)

lemma scene_inv_dropEvent:
  assumes "scene_inv s" and "dropEvent assets g text p s = Inr s'"
  shows "scene_inv s'"
proof (cases "text")
  case None
  with assms show ?thesis by (simp add: dropEvent_def)
next
  case (Some t)
  with assms(2) dropEvent_Inr [of assets g t p s s'] obtain cname ctype q
    where "s' = dropped assets g cname ctype q s" by auto
  with assms(1) show ?thesis by (simp add: scene_inv_dropped)
qed

lemma scene_inv_step:
  assumes "scene_inv s" and "step assets ev s = Inr s'"
  shows "scene_inv s'"
  using assms
  by (cases ev)
     (auto simp: step_def scene_inv_setPos split: if_splits
       dest: scene_inv_dropEvent scene_inv_mouseReleaseEvent)

lemma scene_inv_run:
  assumes "scene_inv s" and "run assets evs s = Inr s'"
  shows "scene_inv s'"
  using assms
proof (induction evs arbitrary: s)
  case Nil
  then show ?case by simp
next
  case (Cons ev evs)
  from Cons.prems(2) obtain s1 where s1: "step assets ev s = Inr s1" "run assets evs s1 = Inr s'"
    by (auto split: sum.splits)
  from scene_inv_step [OF Cons.prems(1) s1(1)] have "scene_inv s1" .
  from Cons.IH [OF this s1(2)] show ?case .
qed

subsection \<open>Releases\<close>



subsection \<open>Links and runs\<close>

lemma prev_of_Some: "prev_of s r = Some q \<longleftrightarrow> (\<exists>x. heap s r = Some (Component x) \<and> connected_prev x = Some q)"
  by (auto simp: prev_of_def split: option.splits obj.splits)

lemma next_of_Some: "next_of s r = Some g \<longleftrightarrow> (\<exists>x. heap s r = Some (Component x) \<and> connected_next x = Some g)"
  by (auto simp: next_of_def split: option.splits obj.splits)

lemma run_Inr_exists:
  "map_sum f g (run assets evs s) = Inr y \<Longrightarrow> \<exists>s'. run assets evs s = Inr s' \<and> g s' = y"
  by (cases "run assets evs s") auto

subsection \<open>The example scenes are reached by runs\<close>

lemma two_items_reached:
  "map_sum id (snapshot 3)
     (run example_assets
        [Drop (Some ''0,qubit-0'') (13, 5), Drop (Some ''1,Pauli-X'') (100, 3)] initial_state) =
   Inr (snapshot 3 two_items)"
  by code_simp

lemma three_qubits_reached:
  "map_sum id (snapshot 5)
     (run example_assets
        [Drop (Some ''0,qubit-0'') (13, 50), Drop (Some ''0,qubit-1'') (0, 200),
         Drop (Some ''0,qubit-0'') (5, 230), Drop (Some ''1,Pauli-X'') (100, 100)]
        initial_state) =
   Inr (snapshot 5 three_qubits)"
  by code_simp

lemma attached_scene_reached:
  "map_sum id (snapshot 5) (run example_assets (butlast evict_events) initial_state) =
   Inr (snapshot 5 attached_scene)"
  by code_simp

section \<open>The claims\<close>

subsection \<open>Grid snapping\<close>

text \<open>
  Claim C8. For every raw position and every cell size \<open>g > 0\<close>, the drop-time floor snap
  succeeds, and each coordinate of its result is at most the raw coordinate, greater than
  the raw coordinate minus \<open>g\<close>, and a multiple of \<open>g\<close>; a drop that creates a component
  places it there. The drop at \<open>(13, 5)\<close> with cell size 24 of the witness gives \<open>(0, 0)\<close>.
\<close>

theorem drop_snap_floor:
  assumes "0 < g"
  shows "\<exists>x y. snap_floor g (px, py) = Inr (x, y) \<and>
           x \<le> px \<and> px - of_int g < x \<and> y \<le> py \<and> py - of_int g < y \<and>
           (\<exists>k::int. x = of_int (k * g)) \<and> (\<exists>k::int. y = of_int (k * g)) \<and>
           (\<forall>assets t s s'. dropEvent assets g (Some t) (px, py) s = Inr s' \<longrightarrow>
              (\<exists>c. heap s' (next_ref s) = Some (Component c) \<and> pos_x c = x \<and> pos_y c = y))"
proof -
  let ?x = "of_int (\<lfloor>px / of_int g\<rfloor> * g) :: rat"
  let ?y = "of_int (\<lfloor>py / of_int g\<rfloor> * g) :: rat"
  from assms have "g \<noteq> 0" by simp
  then have eq: "snap_floor g (px, py) = Inr (?x, ?y)"
    by (simp add: snap_floor_eq)
  have bx: "?x \<le> px" "px - of_int g < ?x"
    using floor_cell_le [OF assms, of px] floor_cell_gt [OF assms, of px] by simp_all
  have by': "?y \<le> py" "py - of_int g < ?y"
    using floor_cell_le [OF assms, of py] floor_cell_gt [OF assms, of py] by simp_all
  have drop: "\<exists>c. heap s' (next_ref s) = Some (Component c) \<and> pos_x c = ?x \<and> pos_y c = ?y"
    if "dropEvent assets g (Some t) (px, py) s = Inr s'" for assets t s s'
  proof -
    from dropEvent_Inr [OF that] eq obtain cname ctype
      where "s' = dropped assets g cname ctype (?x, ?y) s" by auto
    then show ?thesis by (simp add: dropped_heap)
  qed
  show ?thesis
    using eq bx by' drop by blast
qed

theorem drop_snap_floor_witness:
  "(0::int) < 24 \<and> snap_floor 24 (13, 5) = Inr (0, 0) \<and>
   (\<exists>s' c. dropEvent (\<lambda>_. (48, 48)) 24 (Some ''0,qubit-0'') (13, 5) initial_state = Inr s' \<and>
      heap s' 0 = Some (Component c) \<and> pos_x c = 0 \<and> pos_y c = 0)"
proof -
  have e: "snap_floor 24 (13, 5) = Inr (0, 0)" by code_simp
  obtain s' where d: "dropEvent (\<lambda>_. (48, 48)) 24 (Some ''0,qubit-0'') (13, 5) initial_state = Inr s'"
    by (simp add: dropEvent_def e isnumeric_def is_numeric_char_def is_decimal_char_def py_int_def Let_def)
  from drop_snap_floor [of 24 13 5] e d
  have "\<exists>c. heap s' (next_ref initial_state) = Some (Component c) \<and> pos_x c = 0 \<and> pos_y c = 0"
    by auto
  with e d show ?thesis by (auto simp: initial_state_def)
qed




subsection \<open>Drop payloads\<close>

text \<open>
  Claim C10. When the first comma-separated field of a drop payload is not a numeric
  string, the component that the drop creates is of the qubit kind. The drop creates no
  component only when the payload has no second field (\<open>data[1]\<close> raises \<open>IndexError\<close>)
  or the cell size is zero.
\<close>

theorem drop_kind_defaults_to_qubit:
  assumes "\<not> isnumeric (hd (split_on (CHR '','') t))"
  shows "case dropEvent assets scale (Some t) p s of
           Inr s' \<Rightarrow>
             next_ref s \<in> set (scene_items s') \<and>
             (\<exists>c. heap s' (next_ref s) = Some (Component c) \<and> component_type c = TYPE_QUBIT)
         | Inl e \<Rightarrow>
             (e = IndexError \<and> CHR '','' \<notin> set t) \<or> (e = ZeroDivisionError \<and> scale = 0)"
proof (cases "dropEvent assets scale (Some t) p s")
  case (Inr s')
  from dropEvent_Inr [OF Inr] obtain d0 cname rest ctype q
    where sp: "split_on (CHR '','') t = d0 # cname # rest"
      and ty: "(if isnumeric d0 then py_int d0 else Inr TYPE_QUBIT) = Inr ctype"
      and s': "s' = dropped assets scale cname ctype q s" by blast
  from sp assms have "\<not> isnumeric d0" by simp
  with ty have "ctype = TYPE_QUBIT" by simp
  with s' Inr show ?thesis
    by (simp add: dropped_heap dropped_items new_component_def)
next
  case (Inl e)
  obtain d0 rest where sp: "split_on (CHR '','') t = d0 # rest"
    using split_on_hd by blast
  with assms have nn: "\<not> isnumeric d0" by simp
  show ?thesis
  proof (cases rest)
    case Nil
    with sp have "CHR '','' \<notin> set t" by (simp add: split_on_single_no_comma)
    moreover from Inl sp Nil nn have "e = IndexError"
      by (simp add: dropEvent_def)
    ultimately show ?thesis using Inl by simp
  next
    case (Cons cname rest')
    with Inl sp nn have "snap_floor scale p = Inl e"
      by (simp add: dropEvent_def Let_def split: sum.splits)
    then have "e = ZeroDivisionError \<and> scale = 0"
      by (auto simp: snap_floor_def py_mod_def split: if_splits sum.splits)
    with Inl show ?thesis by simp
  qed
qed

theorem drop_kind_defaults_to_qubit_witness:
  "\<not> isnumeric (hd (split_on (CHR '','') ''x1,Pauli-X'')) \<and>
   (\<exists>s' c. dropEvent (\<lambda>_. (48, 48)) 24 (Some ''x1,Pauli-X'') (13, 5) initial_state = Inr s' \<and>
      heap s' 0 = Some (Component c) \<and> component_type c = TYPE_QUBIT)"
proof -
  have n: "\<not> isnumeric (hd (split_on (CHR '','') ''x1,Pauli-X''))"
    by (simp add: isnumeric_def is_numeric_char_def is_decimal_char_def)
  have e: "snap_floor 24 (13, 5) = Inr (0, 0)" by code_simp
  obtain s' where d: "dropEvent (\<lambda>_. (48, 48)) 24 (Some ''x1,Pauli-X'') (13, 5) initial_state = Inr s'"
    by (simp add: dropEvent_def e isnumeric_def is_numeric_char_def is_decimal_char_def Let_def)
  from drop_kind_defaults_to_qubit
         [where t = "''x1,Pauli-X''" and assets = "\<lambda>_. (48, 48)" and scale = 24
            and p = "(13, 5)" and s = initial_state, OF n] d
  have "\<exists>c. heap s' (next_ref initial_state) = Some (Component c) \<and> component_type c = TYPE_QUBIT"
    by simp
  with n d show ?thesis by (auto simp: initial_state_def)
qed

subsection \<open>Connection resolution\<close>

text \<open>
  Claim C5. For a moved gate, a scene item is a connection candidate exactly when it is
  another qubit and the sum of the horizontal and the vertical distance between the two
  positions is at most eight grid cells. Connection resolution binds the gate to the
  first candidate in iteration order and stops: the items before it are no candidates,
  the gate and that qubit are linked to each other, and no other object of the heap is
  changed, whether it is a later candidate or not. Without a candidate nothing changes.
\<close>

theorem check_connections_first_candidate:
  assumes "heap s c = Some (Component cc)" and "component_type cc = TYPE_GATE"
    and "heap s (next_ref s) = None"
  shows "check_connections c s = bind_first_candidate c cc s \<and>
         (\<forall>i ic. heap s i = Some (Component ic) \<longrightarrow>
            is_candidate c cc s i =
              (i \<noteq> c \<and> component_type ic = TYPE_QUBIT \<and>
               \<bar>pos_x cc - pos_x ic\<bar> + \<bar>pos_y cc - pos_y ic\<bar> \<le> 8 * of_int (grid_size cc))) \<and>
         ((\<forall>i\<in>set (scene_items s). \<not> is_candidate c cc s i) \<longrightarrow>
            check_connections c s = s) \<and>
         (\<forall>xs q ys. scene_items s = xs @ q # ys \<and> is_candidate c cc s q \<and>
            (\<forall>i\<in>set xs. \<not> is_candidate c cc s i) \<longrightarrow>
            find (is_candidate c cc s) (scene_items s) = Some q) \<and>
         (\<forall>q. find (is_candidate c cc s) (scene_items s) = Some q \<longrightarrow>
            is_candidate c cc s q \<and>
            (\<exists>xs ys. scene_items s = xs @ q # ys \<and>
               (\<forall>i\<in>set xs. \<not> is_candidate c cc s i)) \<and>
            (\<exists>cc'. heap (check_connections c s) c = Some (Component cc') \<and>
                   connected_prev cc' = Some q) \<and>
            (\<exists>qc'. heap (check_connections c s) q = Some (Component qc') \<and>
                   connected_next qc' = Some c) \<and>
            (\<forall>r. r \<noteq> c \<and> r \<noteq> q \<and> r \<noteq> next_ref s \<longrightarrow>
                   heap (check_connections c s) r = heap s r))"
proof -
  have loop: "scan c cc xs s =
      (case find (is_candidate c cc s) xs of
         None \<Rightarrow> s
       | Some q \<Rightarrow> (case heap s q of Some (Component qc) \<Rightarrow> connect c cc q qc s | _ \<Rightarrow> s))"
    for xs
    using assms(2)
    by (induction xs)
       (simp_all add: is_candidate_def manhattan_def split: option.splits obj.splits)
  have eq: "check_connections c s = bind_first_candidate c cc s"
    using assms(1,2)
    by (simp add: check_connections_def bind_first_candidate_def loop TYPE_GATE_neq_QUBIT)
  have metric: "is_candidate c cc s i =
      (i \<noteq> c \<and> component_type ic = TYPE_QUBIT \<and>
       \<bar>pos_x cc - pos_x ic\<bar> + \<bar>pos_y cc - pos_y ic\<bar> \<le> 8 * of_int (grid_size cc))"
    if "heap s i = Some (Component ic)" for i ic
    using that by (simp add: is_candidate_def)
  have none: "check_connections c s = s"
    if "\<forall>i\<in>set (scene_items s). \<not> is_candidate c cc s i"
  proof -
    from that have "find (is_candidate c cc s) (scene_items s) = None"
      by (simp add: find_None_iff)
    with eq show ?thesis by (simp add: bind_first_candidate_def)
  qed
  have first: "find (is_candidate c cc s) (scene_items s) = Some q"
    if "scene_items s = xs @ q # ys" "is_candidate c cc s q"
      "\<forall>i\<in>set xs. \<not> is_candidate c cc s i" for xs q ys
  proof -
    from that(3,2) have "find (is_candidate c cc s) (xs @ q # ys) = Some q"
      by (rule find_first_match)
    with that(1) show ?thesis by simp
  qed
  have bound: "is_candidate c cc s q \<and>
            (\<exists>xs ys. scene_items s = xs @ q # ys \<and>
               (\<forall>i\<in>set xs. \<not> is_candidate c cc s i)) \<and>
            (\<exists>cc'. heap (check_connections c s) c = Some (Component cc') \<and>
                   connected_prev cc' = Some q) \<and>
            (\<exists>qc'. heap (check_connections c s) q = Some (Component qc') \<and>
                   connected_next qc' = Some c) \<and>
            (\<forall>r. r \<noteq> c \<and> r \<noteq> q \<and> r \<noteq> next_ref s \<longrightarrow>
                   heap (check_connections c s) r = heap s r)"
    if f: "find (is_candidate c cc s) (scene_items s) = Some q" for q
  proof -
    from f obtain k where k: "k < length (scene_items s)" "is_candidate c cc s (scene_items s ! k)"
      "q = scene_items s ! k" "\<forall>j<k. \<not> is_candidate c cc s (scene_items s ! j)"
      unfolding find_Some_iff by blast
    have cand: "is_candidate c cc s q" using k by simp
    have split: "\<exists>xs ys. scene_items s = xs @ q # ys \<and>
        (\<forall>i\<in>set xs. \<not> is_candidate c cc s i)"
    proof (intro exI conjI)
      show "scene_items s = take k (scene_items s) @ q # drop (Suc k) (scene_items s)"
        using k(1,3) by (simp add: id_take_nth_drop)
      show "\<forall>i\<in>set (take k (scene_items s)). \<not> is_candidate c cc s i"
      proof
        fix i assume "i \<in> set (take k (scene_items s))"
        then obtain j where "j < k" "i = scene_items s ! j"
          using k(1) by (auto simp: in_set_conv_nth)
        with k(4) show "\<not> is_candidate c cc s i" by simp
      qed
    qed
    from find_candidate_D [OF f] obtain qc
      where q: "q \<noteq> c" "heap s q = Some (Component qc)" by blast
    from assms q have n: "next_ref s \<noteq> c" "next_ref s \<noteq> q" by auto
    have "check_connections c s = connect c cc q qc s"
      using eq f q by (simp add: bind_first_candidate_def)
    with n q have "(\<exists>cc'. heap (check_connections c s) c = Some (Component cc') \<and>
                   connected_prev cc' = Some q) \<and>
            (\<exists>qc'. heap (check_connections c s) q = Some (Component qc') \<and>
                   connected_next qc' = Some c) \<and>
            (\<forall>r. r \<noteq> c \<and> r \<noteq> q \<and> r \<noteq> next_ref s \<longrightarrow>
                   heap (check_connections c s) r = heap s r)"
      by (simp add: connect_heap [OF assms(1) q(2) q(1)] moved_gate_def)
    with cand split show ?thesis by blast
  qed
  from eq metric none first bound show ?thesis by blast
qed

theorem check_connections_first_candidate_witness:
  "is_candidate 3 (example_gate\<lparr>pos_y := 96\<rparr>) three_qubits 0 \<and>
   is_candidate 3 (example_gate\<lparr>pos_y := 96\<rparr>) three_qubits 1 \<and>
   \<not> is_candidate 3 (example_gate\<lparr>pos_y := 96\<rparr>) three_qubits 2 \<and>
   scene_items three_qubits = [3, 2, 1, 0] \<and>
   find (is_candidate 3 (example_gate\<lparr>pos_y := 96\<rparr>) three_qubits)
     (scene_items three_qubits) = Some 1 \<and>
   prev_of (check_connections 3 three_qubits) 3 = Some 1 \<and>
   next_of (check_connections 3 three_qubits) 1 = Some 3 \<and>
   next_of (check_connections 3 three_qubits) 0 = None \<and>
   next_of (check_connections 3 three_qubits) 2 = None \<and>
   heap (check_connections 3 three_qubits) 0 = heap three_qubits 0 \<and>
   heap (check_connections 3 three_qubits) 2 = heap three_qubits 2"
proof -
  let ?g = "example_gate\<lparr>pos_y := 96\<rparr>"
  have h: "heap three_qubits 3 = Some (Component ?g)"
    "component_type ?g = TYPE_GATE"
    "heap three_qubits (next_ref three_qubits) = None"
    by (simp_all add: three_qubits_def example_gate_def)
  have c: "is_candidate 3 ?g three_qubits 0" "is_candidate 3 ?g three_qubits 1"
    "\<not> is_candidate 3 ?g three_qubits 2"
    by (simp_all add: three_qubits_def is_candidate_def example_gate_def example_qubit_def
        TYPE_QUBIT_def TYPE_GATE_def)
  have computed: "prev_of (check_connections 3 three_qubits) 3 = Some 1 \<and>
      next_of (check_connections 3 three_qubits) 1 = Some 3 \<and>
      next_of (check_connections 3 three_qubits) 0 = None \<and>
      next_of (check_connections 3 three_qubits) 2 = None"
    by code_simp
  have items: "scene_items three_qubits = [2 + 1, 2] @ 1 # [0]"
    by (simp add: three_qubits_def)
  have pre: "\<forall>i\<in>set [2 + 1, 2 :: nat]. \<not> is_candidate 3 ?g three_qubits i"
    using c(3) by (simp add: is_candidate_def)
  from check_connections_first_candidate [OF h]
  have first: "\<forall>xs q ys. scene_items three_qubits = xs @ q # ys \<and>
        is_candidate 3 ?g three_qubits q \<and> (\<forall>i\<in>set xs. \<not> is_candidate 3 ?g three_qubits i) \<longrightarrow>
        find (is_candidate 3 ?g three_qubits) (scene_items three_qubits) = Some q"
    and bound: "\<forall>q. find (is_candidate 3 ?g three_qubits) (scene_items three_qubits) = Some q \<longrightarrow>
        (\<exists>cc'. heap (check_connections 3 three_qubits) 3 = Some (Component cc') \<and>
               connected_prev cc' = Some q) \<and>
        (\<exists>qc'. heap (check_connections 3 three_qubits) q = Some (Component qc') \<and>
               connected_next qc' = Some 3) \<and>
        (\<forall>r. r \<noteq> 3 \<and> r \<noteq> q \<and> r \<noteq> next_ref three_qubits \<longrightarrow>
               heap (check_connections 3 three_qubits) r = heap three_qubits r)"
    by blast+
  from first items c(2) pre
  have f: "find (is_candidate 3 ?g three_qubits) (scene_items three_qubits) = Some 1"
    by blast
  from bound f have b: "\<exists>cc'. heap (check_connections 3 three_qubits) 3 = Some (Component cc') \<and>
               connected_prev cc' = Some 1"
    "\<forall>r. r \<noteq> 3 \<and> r \<noteq> 1 \<and> r \<noteq> next_ref three_qubits \<longrightarrow>
               heap (check_connections 3 three_qubits) r = heap three_qubits r"
    by blast+
  from b(1) have p: "prev_of (check_connections 3 three_qubits) 3 = Some 1"
    by (auto simp: prev_of_def)
  have nr: "next_ref three_qubits = 4" by (simp add: three_qubits_def)
  from b(2) have u: "heap (check_connections 3 three_qubits) 0 = heap three_qubits 0"
    "heap (check_connections 3 three_qubits) 2 = heap three_qubits 2"
    by (simp_all add: nr)
  from c f p computed u show ?thesis by (simp add: three_qubits_def)
qed

text \<open>
  Claim C6. Whenever connection resolution binds a gate to a qubit, the gate ends at the
  qubit's position moved six grid cells to the right, with the same vertical coordinate,
  whatever position the drag left it at. With the qubit at \<open>(0, 0)\<close> and grid size 24 the
  gate of the witness ends at \<open>(144, 0)\<close>, also when it is released at \<open>(110, 7)\<close>, which
  the snap takes to \<open>(120, 0)\<close>.
\<close>

theorem bound_gate_position:
  assumes "heap s c = Some (Component cc)" and "component_type cc = TYPE_GATE"
    and "heap s (next_ref s) = None"
    and "find (is_candidate c cc s) (scene_items s) = Some q"
    and "heap s q = Some (Component qc)"
  shows "\<exists>cc'. heap (check_connections c s) c = Some (Component cc') \<and>
           pos_x cc' = pos_x qc + of_int (6 * grid_size cc) \<and> pos_y cc' = pos_y qc"
proof -
  from find_candidate_D [OF assms(4)] have qc: "q \<noteq> c" by blast
  from assms have n: "next_ref s \<noteq> c" "next_ref s \<noteq> q" by auto
  have "check_connections c s = connect c cc q qc s"
    using assms by (simp add: check_connections_gate bind_first_candidate_def)
  with n qc show ?thesis
    by (simp add: connect_heap [OF assms(1) assms(5) qc] moved_gate_def mult.commute)
qed

theorem bound_gate_position_witness:
  "find (is_candidate 1 example_gate two_items) (scene_items two_items) = Some 0 \<and>
   (\<exists>cc'. heap (check_connections 1 two_items) 1 = Some (Component cc') \<and>
          pos_x cc' = 144 \<and> pos_y cc' = 0) \<and>
   map_sum id (\<lambda>s. position_of s 1)
     (run example_assets
        [Drop (Some ''0,qubit-0'') (13, 5), Drop (Some ''1,Pauli-X'') (100, 3),
         Move 1 (110, 7), Release 1] initial_state) = Inr (Some (144, 0))"
proof -
  have h: "heap two_items 1 = Some (Component example_gate)"
    "component_type example_gate = TYPE_GATE"
    "heap two_items (next_ref two_items) = None"
    by (simp_all add: two_items_def example_gate_def)
  have f: "find (is_candidate 1 example_gate two_items) (scene_items two_items) = Some 0"
    by (simp add: two_items_def is_candidate_def example_gate_def example_qubit_def
        manhattan_def TYPE_QUBIT_def TYPE_GATE_def)
  have q: "heap two_items 0 = Some (Component example_qubit)"
    by (simp add: two_items_def)
  have r: "map_sum id (\<lambda>s. position_of s 1)
     (run example_assets
        [Drop (Some ''0,qubit-0'') (13, 5), Drop (Some ''1,Pauli-X'') (100, 3),
         Move 1 (110, 7), Release 1] initial_state) = Inr (Some (144, 0))"
    by code_simp
  from bound_gate_position [OF h f q] f r show ?thesis
    by (simp add: example_gate_def example_qubit_def)
qed

text \<open>
  Claim C3. When connection resolution binds a gate to a qubit whose \<open>connected_next\<close> is
  \<open>None\<close>, the guard of line 150 holds and the first scene call is \<open>removeItem(None)\<close>;
  the removals of lines already tagged with the pair and the addition of the new line
  follow.
\<close>

theorem unconnected_qubit_removal_call:
  assumes "heap s c = Some (Component cc)" and "component_type cc = TYPE_GATE"
    and "find (is_candidate c cc s) (scene_items s) = Some q"
    and "heap s q = Some (Component qc)"
    and "connected_next qc = None"
  shows "calls (check_connections c s) =
           calls s @ [RemoveItem None]
             @ map (\<lambda>j. RemoveItem (Some j)) (filter (is_line_of s q c) (scene_items s))
             @ [AddItem (next_ref s)]"
proof -
  from find_candidate_D [OF assms(3)] have qc: "q \<noteq> c" by blast
  have "check_connections c s = connect c cc q qc s"
    using assms by (simp add: check_connections_gate bind_first_candidate_def)
  with assms(5) show ?thesis
    by (simp add: connect_calls [OF assms(1) assms(4) qc] items_after_eviction_def)
qed

theorem unconnected_qubit_removal_call_witness:
  "connected_next example_qubit = None \<and>
   calls (check_connections 1 two_items) = [AddItem 0, AddItem 1, RemoveItem None, AddItem 2]"
proof -
  have h: "heap two_items 1 = Some (Component example_gate)"
    "component_type example_gate = TYPE_GATE"
    by (simp_all add: two_items_def example_gate_def)
  have f: "find (is_candidate 1 example_gate two_items) (scene_items two_items) = Some 0"
    by (simp add: two_items_def is_candidate_def example_gate_def example_qubit_def
        manhattan_def TYPE_QUBIT_def TYPE_GATE_def)
  have q: "heap two_items 0 = Some (Component example_qubit)"
    "connected_next example_qubit = None"
    by (simp_all add: two_items_def example_qubit_def)
  from unconnected_qubit_removal_call [OF h f q] q(2) show ?thesis
    by (simp add: two_items_def is_line_of_def)
qed

text \<open>
  Claim C7. If the settled component is a qubit, or a gate that is farther than eight
  grid cells from every qubit of the scene, connection resolution returns the state it
  was given: no line is created or removed, no scene call is made, and every link is as
  before.
\<close>

theorem out_of_range_unchanged:
  assumes "heap s c = Some (Component cc)"
    and "component_type cc = TYPE_QUBIT \<or>
         (\<forall>i\<in>set (scene_items s). \<forall>ic.
            i \<noteq> c \<and> heap s i = Some (Component ic) \<and> component_type ic = TYPE_QUBIT \<longrightarrow>
            of_int (grid_size cc * 8) < manhattan cc ic)"
  shows "check_connections c s = s"
proof (cases "component_type cc = TYPE_GATE")
  case True
  with assms(2) have far: "\<forall>i\<in>set (scene_items s). \<forall>ic.
            i \<noteq> c \<and> heap s i = Some (Component ic) \<and> component_type ic = TYPE_QUBIT \<longrightarrow>
            of_int (grid_size cc * 8) < manhattan cc ic"
    by (simp add: TYPE_GATE_neq_QUBIT)
  have "\<forall>i\<in>set (scene_items s). \<not> is_candidate c cc s i"
  proof
    fix i assume i: "i \<in> set (scene_items s)"
    show "\<not> is_candidate c cc s i"
      using far i by (fastforce simp: is_candidate_def manhattan_def split: option.splits obj.splits)
  qed
  then have "find (is_candidate c cc s) (scene_items s) = None"
    by (simp add: find_None_iff)
  with assms(1) True show ?thesis
    by (simp add: check_connections_gate bind_first_candidate_def)
next
  case False
  with assms(1) show ?thesis
    by (simp add: check_connections_def scan_not_gate)
qed

theorem out_of_range_unchanged_witness:
  "(\<exists>cc. heap far_gate 1 = Some (Component cc) \<and> component_type cc = TYPE_GATE \<and>
      pos_x cc = 240 \<and> grid_size cc * 8 = 192) \<and>
   check_connections 1 far_gate = far_gate \<and> check_connections 0 far_gate = far_gate"
proof -
  let ?g = "example_gate\<lparr>pos_x := 240, pos_y := 0\<rparr>"
  have h: "heap far_gate 1 = Some (Component ?g)"
    by (simp add: far_gate_def two_items_def setPos_def heap_upd_component)
  have far: "\<forall>i\<in>set (scene_items far_gate). \<forall>ic.
            i \<noteq> 1 \<and> heap far_gate i = Some (Component ic) \<and> component_type ic = TYPE_QUBIT \<longrightarrow>
            of_int (grid_size ?g * 8) < manhattan ?g ic"
    by (simp add: far_gate_def two_items_def setPos_def heap_upd_component manhattan_def
        example_gate_def example_qubit_def)
  have hq: "heap far_gate 0 = Some (Component example_qubit)"
    "component_type example_qubit = TYPE_QUBIT"
    by (simp_all add: far_gate_def two_items_def setPos_def heap_upd_component example_qubit_def)
  from out_of_range_unchanged [OF h] far out_of_range_unchanged [OF hq(1)] hq(2) h
  show ?thesis by (simp add: example_gate_def)
qed

subsection \<open>Eviction\<close>

text \<open>
  Claim C1, as stated, fails. In \<open>attached_scene\<close> the gate 1 is attached to the qubit 0
  with the line 2, and the gate 3 is within the threshold of the qubit. After connection
  resolution on the gate 3 the line 2, tagged with the qubit 0 and the gate 1, is still
  in the scene, and \<open>connected_prev\<close> of the gate 1 is still the qubit 0: line 151
  removes the gate 1 itself, and no statement resets a link.
\<close>

theorem eviction_counterexample:
  "next_of attached_scene 0 = Some 1 \<and> prev_of attached_scene 1 = Some 0 \<and>
   is_line_of attached_scene 0 1 2 \<and>
   find (is_candidate 3 (example_gate\<lparr>component_name := ''Pauli-Y'', pos_x := 24, pos_y := 24\<rparr>)
          attached_scene) (scene_items attached_scene) = Some 0 \<and>
   scene_items (check_connections 3 attached_scene) = [4, 3, 2, 0] \<and>
   is_line_of (check_connections 3 attached_scene) 0 1 2 \<and>
   prev_of (check_connections 3 attached_scene) 1 = Some 0"
  by code_simp

text \<open>
  Claim C1, amended. For every qubit Q with an attached gate G1 and every other gate G2
  that connection resolution binds to Q (Q is the first candidate of G2), the resolution
  removes G1 itself from the scene and makes G2 the gate of Q (\<open>connected_next\<close> of Q is
  G2 and \<open>connected_prev\<close> of G2 is Q); the object G1 is left as it was, so its
  \<open>connected_prev\<close> is not reset.
\<close>

theorem eviction_removes_old_gate:
  assumes "heap s c = Some (Component cc)" and "component_type cc = TYPE_GATE"
    and "heap s (next_ref s) = None"
    and "find (is_candidate c cc s) (scene_items s) = Some q"
    and "next_of s q = Some g1" and "g1 \<noteq> c" and "is_kind s TYPE_GATE g1"
  shows "g1 \<notin> set (scene_items (check_connections c s)) \<and>
         next_of (check_connections c s) q = Some c \<and>
         prev_of (check_connections c s) c = Some q \<and>
         heap (check_connections c s) g1 = heap s g1"
proof -
  from find_candidate_D [OF assms(4)] obtain qc
    where q: "q \<noteq> c" "heap s q = Some (Component qc)" "component_type qc = TYPE_QUBIT"
    by blast
  from assms(5) q have nx: "connected_next qc = Some g1" by (simp add: next_of_Some)
  from assms(7) obtain g1c where g1: "heap s g1 = Some (Component g1c)" "component_type g1c = TYPE_GATE"
    by (auto simp: is_kind_Component)
  with q have gq: "g1 \<noteq> q" by (auto simp: TYPE_GATE_def TYPE_QUBIT_def)
  from assms(1,3) q g1 have n: "next_ref s \<noteq> c" "next_ref s \<noteq> q" "next_ref s \<noteq> g1" by auto
  have eq: "check_connections c s = connect c cc q qc s"
    using assms q by (simp add: check_connections_gate bind_first_candidate_def)
  have "items_after_eviction c qc s = removeAll g1 (scene_items s)"
    using nx assms(6) by (simp add: items_after_eviction_def)
  then have "g1 \<notin> set (scene_items (connect c cc q qc s))"
    using n by (simp add: connect_items [OF assms(1) q(2) q(1)] Let_def)
  moreover have "next_of (connect c cc q qc s) q = Some c"
    using n by (simp add: next_of_def connect_heap [OF assms(1) q(2) q(1)])
  moreover have "prev_of (connect c cc q qc s) c = Some q"
    using n q by (simp add: prev_of_def connect_heap [OF assms(1) q(2) q(1)] moved_gate_def)
  moreover have "heap (connect c cc q qc s) g1 = heap s g1"
    using n gq assms(6) by (simp add: connect_heap [OF assms(1) q(2) q(1)])
  ultimately show ?thesis by (simp add: eq)
qed

theorem eviction_removes_old_gate_witness:
  "next_of attached_scene 0 = Some 1 \<and> 1 \<in> set (scene_items attached_scene) \<and>
   1 \<notin> set (scene_items (check_connections 3 attached_scene)) \<and>
   next_of (check_connections 3 attached_scene) 0 = Some 3 \<and>
   prev_of (check_connections 3 attached_scene) 3 = Some 0 \<and>
   heap (check_connections 3 attached_scene) 1 = heap attached_scene 1"
proof -
  let ?g = "example_gate\<lparr>component_name := ''Pauli-Y'', pos_x := 24, pos_y := 24\<rparr>"
  have h: "heap attached_scene 3 = Some (Component ?g)" "component_type ?g = TYPE_GATE"
    "heap attached_scene (next_ref attached_scene) = None"
    by (simp_all add: attached_scene_def example_gate_def)
  have f: "find (is_candidate 3 ?g attached_scene) (scene_items attached_scene) = Some 0"
    by code_simp
  have o: "next_of attached_scene 0 = Some 1" "(1::nat) \<noteq> 3" "is_kind attached_scene TYPE_GATE 1"
    "1 \<in> set (scene_items attached_scene)"
    by (simp_all add: attached_scene_def next_of_def is_kind_def example_gate_def)
  from eviction_removes_old_gate [OF h f o(1,2,3)] o show ?thesis by simp
qed

subsection \<open>Invariants of the canvas\<close>

text \<open>
  Claim C2, as stated, fails. In the run \<open>rebind_events\<close> the links are symmetric before
  the last release. That release binds the gate 2 to the qubit 1; the qubit 0, to which
  the gate was bound before, keeps the gate as \<open>connected_next\<close>, while \<open>connected_prev\<close>
  of the gate is now the qubit 1.
\<close>

theorem link_symmetry_counterexample:
  "map_sum id link_symmetric (run example_assets (butlast rebind_events) initial_state) = Inr True \<and>
   map_sum id link_symmetric (run example_assets rebind_events initial_state) = Inr False"
  by code_simp

text \<open>
  Claim C2, amended. After every run of drops, drags and releases, for every item of the
  scene: \<open>connected_prev\<close>, if set, is a qubit whose \<open>connected_next\<close> points back to the
  item, and \<open>connected_next\<close>, if set, is a gate. (That the gate's \<open>connected_prev\<close>
  points back to the qubit is not part of the invariant.)
\<close>

theorem placed_gates_point_back:
  assumes "run assets evs initial_state = Inr s"
  shows "\<forall>i\<in>set (scene_items s). prev_points_back s i \<and> next_is_gate s i"
proof
  fix i assume i: "i \<in> set (scene_items s)"
  from scene_inv_run [OF scene_inv_initial assms]
  have lt: "links_typed s" and pg: "placed_gates_linked s"
    by (simp_all add: scene_inv_def)
  have "prev_points_back s i"
  proof (cases "prev_of s i")
    case None
    then show ?thesis by (simp add: prev_points_back_def)
  next
    case (Some q)
    then obtain gc where g: "heap s i = Some (Component gc)" "connected_prev gc = Some q"
      by (auto simp: prev_of_Some)
    with lt have "is_kind s TYPE_QUBIT q" unfolding links_typed_def by blast
    moreover from pg i g have "\<exists>qc. heap s q = Some (Component qc) \<and> connected_next qc = Some i"
      unfolding placed_gates_linked_def by blast
    then have "next_of s q = Some i" by (simp add: next_of_Some)
    ultimately show ?thesis using Some by (simp add: prev_points_back_def)
  qed
  moreover have "next_is_gate s i"
  proof (cases "next_of s i")
    case None
    then show ?thesis by (simp add: next_is_gate_def)
  next
    case (Some g)
    then obtain qc where "heap s i = Some (Component qc)" "connected_next qc = Some g"
      by (auto simp: next_of_Some)
    with lt have "is_kind s TYPE_GATE g" unfolding links_typed_def by blast
    with Some show ?thesis by (simp add: next_is_gate_def)
  qed
  ultimately show "prev_points_back s i \<and> next_is_gate s i" ..
qed

theorem placed_gates_point_back_witness:
  "\<exists>s. run example_assets rebind_events initial_state = Inr s \<and>
       scene_items s = [4, 3, 2, 1, 0] \<and> prev_of s 2 = Some 1 \<and> next_of s 0 = Some 2 \<and>
       prev_points_back s 2 \<and> next_is_gate s 0"
proof -
  have "map_sum id (\<lambda>s. (scene_items s, prev_of s 2, next_of s 0))
          (run example_assets rebind_events initial_state) = Inr ([4, 3, 2, 1, 0], Some 1, Some 2)"
    by code_simp
  from run_Inr_exists [OF this] obtain s
    where r: "run example_assets rebind_events initial_state = Inr s"
      and v: "scene_items s = [4, 3, 2, 1, 0]" "prev_of s 2 = Some 1" "next_of s 0 = Some 2"
    by auto
  from placed_gates_point_back [OF r] v(1)
  have "prev_points_back s 2" "next_is_gate s 0" by simp_all
  with r v show ?thesis by blast
qed

text \<open>
  Claim C4, as stated, fails. In the run \<open>evict_events\<close> every line belongs to an active
  binding before the last release. That release binds the gate 3 to the qubit 0 and
  removes the gate 1 from the scene; the line 2 of the replaced binding stays in the
  scene, whose items are then the new line 4, the gate 3, the line 2 and the qubit 0.
\<close>

theorem stale_line_counterexample:
  "map_sum id no_stale_lines (run example_assets (butlast evict_events) initial_state) = Inr True \<and>
   map_sum id no_stale_lines (run example_assets evict_events initial_state) = Inr False \<and>
   map_sum id scene_items (run example_assets evict_events initial_state) = Inr [4, 3, 2, 0]"
  by code_simp

text \<open>
  Claim C4, amended. After every run of drops, drags and releases, no pair of a qubit and
  a gate has two lines in the scene, and for every item of the scene each link that is
  set (\<open>connected_prev\<close> or \<open>connected_next\<close>) has exactly one line tagged with that
  pair: before a line is drawn, the lines with the same tag are removed. (Nothing is
  said about the line of a binding that was replaced.)
\<close>

theorem one_line_per_link:
  assumes "run assets evs initial_state = Inr s"
  shows "(\<forall>q g. lines_for s q g \<le> 1) \<and> (\<forall>i\<in>set (scene_items s). links_drawn_once s i)"
proof -
  from scene_inv_run [OF scene_inv_initial assms]
  have lu: "lines_unique s" and lh: "links_have_line s"
    by (simp_all add: scene_inv_def)
  have "links_drawn_once s i" for i
  proof -
    have "lines_for s q i = 1" if "prev_of s i = Some q" for q
      using that lh unfolding links_have_line_def prev_of_Some by blast
    moreover have "lines_for s i g = 1" if "next_of s i = Some g" for g
      using that lh unfolding links_have_line_def next_of_Some by blast
    ultimately show ?thesis
      by (simp add: links_drawn_once_def split: option.splits)
  qed
  with lu show ?thesis by (simp add: lines_unique_def)
qed

theorem one_line_per_link_witness:
  "\<exists>s. run example_assets evict_events initial_state = Inr s \<and>
       scene_items s = [4, 3, 2, 0] \<and> next_of s 0 = Some 3 \<and>
       lines_for s 0 3 = 1 \<and> lines_for s 0 1 \<le> 1"
proof -
  have "map_sum id (\<lambda>s. (scene_items s, next_of s 0))
          (run example_assets evict_events initial_state) = Inr ([4, 3, 2, 0], Some 3)"
    by code_simp
  from run_Inr_exists [OF this] obtain s
    where r: "run example_assets evict_events initial_state = Inr s"
      and v: "scene_items s = [4, 3, 2, 0]" "next_of s 0 = Some 3"
    by auto
  from one_line_per_link [OF r] v
  have "lines_for s 0 1 \<le> 1" "links_drawn_once s 0" by simp_all
  with v have "lines_for s 0 3 = 1" by (simp add: links_drawn_once_def)
  with r v \<open>lines_for s 0 1 \<le> 1\<close> show ?thesis by blast
qed

end
